theory Spec2Isabelle
  imports Complex_Main "HOL-Library.Word" "HOL-Library.Log_Nat"
begin

section \<open>Data model\<close>

text \<open>
  The program is one React component (\<open>App\<close>) that plays both roles of a peer-to-peer
  file transfer. Its state is a handful of \<open>useState\<close> cells and \<open>useRef\<close> cells; every
  handler of the component is modelled as a function from that state to the next one.
\<close>

datatype TransferState =
  IDLE | CONNECTING | CONNECTED | WAITING_APPROVAL | TRANSFERRING | COMPLETED | FAILED

type_synonym byte = "8 word"
type_synonym bytes = "byte list"

text \<open>
  \<open>FileMetadata\<close> of the source has the fields \<open>name\<close>, \<open>size\<close>, \<open>type\<close>; they are
  prefixed here because \<open>size\<close> is a constant of HOL.
\<close>

record FileMetadata =
  meta_name :: string
  meta_size :: nat
  meta_type :: string

text \<open>
  A browser \<open>File\<close>: its name, its content and its media type. \<open>file.size\<close> is the
  length of the content.
\<close>

record File =
  file_name :: string
  file_bytes :: bytes
  file_type :: string

definition file_size :: "File \<Rightarrow> nat" where
  "file_size f = length (file_bytes f)"

text \<open>
  The tags are those of \<open>DataPacket\<close> together with \<open>file-start\<close> and \<open>heartbeat\<close>,
  which the component sends and compares against although the type does not list them.
\<close>

datatype packet =
  Handshake | Approve | Reject | FileMeta FileMetadata | FileStart
  | FileChunk bytes | FileEnd | FileWhole | Heartbeat

text \<open>
  A \<open>Blob\<close> is its content and its type. \<open>receivedFileUrl\<close> holds an object URL of the
  assembled blob; the model stores the blob the URL names.
\<close>

record Blob =
  blob_bytes :: bytes
  blob_type :: string

text \<open>
  The progress cell holds a JavaScript number. The percentages are integers, except that
  the receiver divides by the descriptor's size without a guard: a positive count
  divided by zero is \<open>Infinity\<close> and \<open>0 / 0\<close> is \<open>NaN\<close>, and \<open>Math.round\<close> keeps both.
\<close>

datatype jsnum = Num int | Infinity | NaN

text \<open>A data connection is known by an identifier; whether it is open is the
  environment's to say, so a handler that reads \<open>conn.open\<close> takes the answer as input.\<close>

type_synonym conn = nat

datatype tab = SendTab | ReceiveTab

text \<open>What crosses the wire, in order: a packet handed to \<open>conn.send\<close> on a connection,
  or a packet delivered to a \<open>data\<close> handler.\<close>

datatype io = Out conn packet | In packet

text \<open>
  The handlers that \<open>connectToPeer\<close> registers on the connection it makes are closures
  of the render in which it ran: whenever they run, they read the values that
  \<open>selectedFile\<close> and \<open>status\<close> had in that render. Each connection keeps the closure of
  the call that made it.
\<close>

record closure =
  seenFile :: "File option"
  seenStatus :: TransferState

text \<open>
  The component's state. \<open>wire\<close> and \<open>progressLog\<close> are not cells of the source: they
  record every call of \<open>conn.send\<close> (and every delivered packet) and every call of
  \<open>setProgress\<close>, in order, so that claims about what was sent or reported can be stated.
  \<open>closures\<close> gives, for every connection that \<open>connectToPeer\<close> has made, the closure of
  its handlers. \<open>peerRef\<close> says whether \<open>peerRef.current\<close> is set.
\<close>

record app =
  status :: TransferState
  statusMessage :: string
  activeTab :: tab
  targetId :: string
  selectedFile :: "File option"
  incomingMeta :: "FileMetadata option"
  receivedFileUrl :: "Blob option"
  progress :: jsnum
  peerRef :: bool
  connRef :: "conn option"
  incomingMetaRef :: "FileMetadata option"
  receivedChunksRef :: "bytes list"
  receivedSizeRef :: nat
  heartbeatRef :: "conn option"
  closures :: "conn \<Rightarrow> closure option"
  wire :: "io list"
  progressLog :: "jsnum list"

definition CHUNK_SIZE :: nat where
  "CHUNK_SIZE = 32 * 1024"

definition MAX_BUFFER_AMOUNT :: nat where
  "MAX_BUFFER_AMOUNT = 1024 * 1024"

section \<open>Primitive effects\<close>

definition send :: "conn \<Rightarrow> packet \<Rightarrow> app \<Rightarrow> app" where
  "send c p s = s\<lparr>wire := wire s @ [Out c p]\<rparr>"

definition setProgress :: "jsnum \<Rightarrow> app \<Rightarrow> app" where
  "setProgress v s = s\<lparr>progress := v, progressLog := progressLog s @ [v]\<rparr>"

subsection \<open>Arithmetic on doubles\<close>

text \<open>
  A JavaScript number is an IEEE 754 binary64 value, and every arithmetic operation
  returns the double nearest to the exact result, ties going to the even significand.
  A finite double is a rational number, so the model computes with rationals and rounds
  after each operation. \<open>rne\<close> rounds a rational to the nearest integer, ties to even.
\<close>

definition rne :: "rat \<Rightarrow> int" where
  "rne x =
     (let n = \<lfloor>x\<rfloor>; d = x - of_int n
      in if d < 1 / 2 then n else if 1 / 2 < d then n + 1 else if even n then n else n + 1)"

text \<open>The binary exponent of a positive rational: \<open>2 ^ e \<le> x < 2 ^ (e + 1)\<close>.\<close>

definition ilog2 :: "rat \<Rightarrow> int" where
  "ilog2 x = (if 1 \<le> x then bitlen \<lfloor>x\<rfloor> - 1 else - bitlen (\<lceil>1 / x\<rceil> - 1))"

text \<open>
  The double nearest to \<open>x\<close>: a significand of 53 bits. The exponent is not bounded
  here; binary64 agrees for magnitudes from \<open>2 ^ -1022\<close> up to \<open>2 ^ 1024\<close>, which covers
  byte counts, their quotients and one hundred times their quotients.
\<close>

definition fl :: "rat \<Rightarrow> rat" where
  "fl x =
     (if x = 0 then 0
      else let u = 2 powi (ilog2 \<bar>x\<bar> - 52) in of_int (rne (x / u)) * u)"

text \<open>
  \<open>Math.round\<close> of a double: the nearest integer, halves upwards.
\<close>

definition js_round :: "rat \<Rightarrow> int" where
  "js_round x = \<lfloor>x + 1 / 2\<rfloor>"

text \<open>
  \<open>Math.round((a / b) * 100)\<close> for two byte counts: the counts are numbers, the quotient
  is rounded to a double, its product with 100 is rounded to a double, and that double is
  rounded to an integer. Division by zero gives \<open>Infinity\<close>, or \<open>NaN\<close> for \<open>0 / 0\<close>.
\<close>

definition percent :: "nat \<Rightarrow> nat \<Rightarrow> jsnum" where
  "percent a b =
     (if b = 0 then (if a = 0 then NaN else Infinity)
      else Num (js_round (fl (fl (fl (of_nat a) / fl (of_nat b)) * 100))))"

text \<open>\<open>Math.min(100, x)\<close>.\<close>

fun min100 :: "jsnum \<Rightarrow> jsnum" where
  "min100 (Num n) = Num (min 100 n)"
| "min100 Infinity = Num 100"
| "min100 NaN = NaN"

section \<open>Liveness monitor\<close>

text \<open>
  \<open>heartbeatRef\<close> holds the running interval; the model stores the connection that the
  interval's callback captured. \<open>startHeartbeat\<close> clears a running interval and installs
  a new one.
\<close>

definition startHeartbeat :: "conn \<Rightarrow> app \<Rightarrow> app" where
  "startHeartbeat c s = s\<lparr>heartbeatRef := Some c\<rparr>"

definition stopHeartbeat :: "app \<Rightarrow> app" where
  "stopHeartbeat s = s\<lparr>heartbeatRef := None\<rparr>"

text \<open>One firing of the 2000 ms interval; \<open>is_open\<close> is the value of \<open>conn.open\<close>
  of the captured connection at that moment.\<close>

definition heartbeatTick :: "bool \<Rightarrow> app \<Rightarrow> app" where
  "heartbeatTick is_open s =
     (case heartbeatRef s of
        None \<Rightarrow> s
      | Some c \<Rightarrow> if is_open then send c Heartbeat s else s)"

section \<open>Receiver\<close>

definition handleIncomingConnection :: "conn \<Rightarrow> app \<Rightarrow> app" where
  "handleIncomingConnection c s =
     (startHeartbeat c
        (s\<lparr>connRef := Some c, status := CONNECTED,
           statusMessage := ''Connected to sender'', activeTab := ReceiveTab\<rparr>))
       \<lparr>receivedChunksRef := [], receivedSizeRef := 0\<rparr>"

text \<open>The \<open>data\<close> handler that \<open>handleIncomingConnection\<close> registers.\<close>

fun receiver_on_data :: "app \<Rightarrow> packet \<Rightarrow> app" where
  "receiver_on_data s (FileMeta m) =
     s\<lparr>incomingMeta := Some m, status := WAITING_APPROVAL\<rparr>"
| "receiver_on_data s FileStart =
     setProgress (Num 0)
       (s\<lparr>status := TRANSFERRING, statusMessage := ''Receiving file...'',
          receivedChunksRef := [], receivedSizeRef := 0\<rparr>)"
| "receiver_on_data s (FileChunk chunk) =
     (let s1 = s\<lparr>receivedChunksRef := receivedChunksRef s @ [chunk],
                  receivedSizeRef := receivedSizeRef s + length chunk\<rparr>
      in case incomingMetaRef s1 of
           Some m \<Rightarrow> setProgress (percent (receivedSizeRef s1) (meta_size m)) s1
         | None \<Rightarrow> s1)"
| "receiver_on_data s FileEnd =
     (case incomingMetaRef s of
        Some m \<Rightarrow>
          setProgress (Num 100)
            (s\<lparr>receivedFileUrl :=
                 Some \<lparr>blob_bytes = concat (receivedChunksRef s), blob_type = meta_type m\<rparr>,
               status := COMPLETED,
               statusMessage := ''File received successfully!''\<rparr>)
      | None \<Rightarrow> s)"
| "receiver_on_data s Reject =
     s\<lparr>status := IDLE, statusMessage := ''Transfer cancelled.'', incomingMeta := None\<rparr>"
| "receiver_on_data s Handshake = s"
| "receiver_on_data s Approve = s"
| "receiver_on_data s FileWhole = s"
| "receiver_on_data s Heartbeat = s"

definition receiver_on_close :: "app \<Rightarrow> app" where
  "receiver_on_close s =
     (stopHeartbeat s)\<lparr>status := IDLE, statusMessage := ''Sender disconnected.'',
                        connRef := None\<rparr>"

definition receiver_on_error :: "app \<Rightarrow> app" where
  "receiver_on_error s =
     s\<lparr>status := FAILED, statusMessage := ''Connection error occurred.''\<rparr>"

section \<open>Sender\<close>

text \<open>
  \<open>connectToPeer\<close> makes the connection \<open>c\<close> and registers its handlers, which close
  over the render in which it ran.
\<close>

definition connectToPeer :: "conn \<Rightarrow> app \<Rightarrow> app" where
  "connectToPeer c s =
     (if targetId s = [] \<or> \<not> peerRef s then s
      else s\<lparr>status := CONNECTING, statusMessage := ''Connecting...'',
             closures := (closures s)(c \<mapsto> \<lparr>seenFile = selectedFile s,
                                            seenStatus = status s\<rparr>)\<rparr>)"

definition sender_on_open :: "conn \<Rightarrow> app \<Rightarrow> app" where
  "sender_on_open c s =
     startHeartbeat c
       (s\<lparr>connRef := Some c, status := CONNECTED,
          statusMessage := ''Connected! Select a file.''\<rparr>)"

definition sender_on_error :: "app \<Rightarrow> app" where
  "sender_on_error s =
     s\<lparr>status := FAILED, statusMessage := ''Connection failed. Check ID.''\<rparr>"

text \<open>The \<open>close\<close> handler compares the \<open>status\<close> of its closure.\<close>

definition sender_on_close :: "closure \<Rightarrow> app \<Rightarrow> app" where
  "sender_on_close cl s =
     (let s1 = stopHeartbeat s
      in if seenStatus cl \<noteq> COMPLETED
         then s1\<lparr>status := IDLE, statusMessage := ''Connection closed.''\<rparr>
         else s1)"

text \<open>
  The callback of the 10000 ms timer of \<open>connectToPeer\<close>. It tests
  \<open>connRef.current?.open === false\<close>: with no connection on record the left side is
  \<open>undefined\<close> and the test fails. \<open>is_open\<close> is the \<open>open\<close> flag of the recorded
  connection when the timer fires.
\<close>

definition connectTimeout :: "bool \<Rightarrow> app \<Rightarrow> app" where
  "connectTimeout is_open s =
     (case connRef s of
        None \<Rightarrow> s
      | Some c \<Rightarrow>
          if is_open = False
          then s\<lparr>status := FAILED, statusMessage := ''Connection timed out. Check ID.''\<rparr>
          else s)"

text \<open>The callback of the 2000 ms timer that the sender's \<open>reject\<close> branch sets.\<close>

definition rejectTimer :: "app \<Rightarrow> app" where
  "rejectTimer s = s\<lparr>status := CONNECTED\<rparr>"

definition processFile :: "File \<Rightarrow> app \<Rightarrow> app" where
  "processFile f s = s\<lparr>selectedFile := Some f\<rparr>"

definition requestSend :: "app \<Rightarrow> app" where
  "requestSend s =
     (case connRef s of
        None \<Rightarrow> s
      | Some c \<Rightarrow>
         (case selectedFile s of
            None \<Rightarrow> s
          | Some f \<Rightarrow>
              (send c (FileMeta \<lparr>meta_name = file_name f, meta_size = file_size f,
                                 meta_type = file_type f\<rparr>) s)
                \<lparr>status := WAITING_APPROVAL,
                 statusMessage := ''Waiting for acceptance...''\<rparr>))"

subsection \<open>The chunk loop\<close>

text \<open>\<open>blob.slice(a, b)\<close> for \<open>0 \<le> a \<le> b\<close>.\<close>

definition slice :: "bytes \<Rightarrow> nat \<Rightarrow> nat \<Rightarrow> bytes" where
  "slice xs a b = take (b - a) (drop a xs)"

text \<open>
  What one iteration of the loop reads from its environment: \<open>connRef.current.open\<close> and
  the data channel's \<open>bufferedAmount\<close> (\<open>None\<close> when the connection has no data channel).
\<close>

record observation =
  obs_open :: bool
  obs_buffered :: "nat option"

definition backlogged :: "observation \<Rightarrow> bool" where
  "backlogged ob =
     (case obs_buffered ob of None \<Rightarrow> False | Some n \<Rightarrow> n > MAX_BUFFER_AMOUNT)"

text \<open>The statements after the loop.\<close>

definition finishUpload :: "conn \<Rightarrow> app \<Rightarrow> app" where
  "finishUpload c s =
     (send c FileEnd s)\<lparr>status := COMPLETED, statusMessage := ''Sent Successfully!''\<rparr>"

text \<open>
  The \<open>while\<close> loop of \<open>startChunkedUpload\<close>. Each iteration consumes one observation;
  an iteration that finds the channel backlogged waits and tries again, so the loop need
  not end. \<open>None\<close> says that the loop is still running when the observations are used up.
\<close>

fun chunkLoop :: "conn \<Rightarrow> File \<Rightarrow> nat \<Rightarrow> observation list \<Rightarrow> app \<Rightarrow> app option" where
  "chunkLoop c file offset [] s =
     (if offset < file_size file then None else Some (finishUpload c s))"
| "chunkLoop c file offset (ob # obs) s =
     (if offset < file_size file then
        if \<not> obs_open ob
        then Some (s\<lparr>status := FAILED,
                     statusMessage := ''Connection lost during transfer''\<rparr>)
        else if backlogged ob then chunkLoop c file offset obs s
        else chunkLoop c file (offset + CHUNK_SIZE) obs
               (setProgress (min100 (percent (offset + CHUNK_SIZE) (file_size file)))
                  (send c (FileChunk (slice (file_bytes file) offset (offset + CHUNK_SIZE))) s))
      else Some (finishUpload c s))"

text \<open>
  \<open>startChunkedUpload\<close>; \<open>sel\<close> is the \<open>selectedFile\<close> in scope of the closure that is
  called: the current one for the force-start button, the one of the connection's
  closure for the \<open>approve\<close> branch of the sender's \<open>data\<close> handler.
\<close>

definition startChunkedUpload ::
    "File option \<Rightarrow> observation list \<Rightarrow> app \<Rightarrow> app option" where
  "startChunkedUpload sel obs s =
     (case connRef s of
        None \<Rightarrow> Some s
      | Some c \<Rightarrow>
         (case sel of
            None \<Rightarrow> Some s
          | Some file \<Rightarrow>
              chunkLoop c file 0 obs
                ((send c FileStart
                    (s\<lparr>status := TRANSFERRING, statusMessage := ''Starting transfer...''\<rparr>))
                   \<lparr>statusMessage := ''Sending file...''\<rparr>)))"

text \<open>The \<open>data\<close> handler that \<open>connectToPeer\<close> registers; it calls the
  \<open>startChunkedUpload\<close> of its closure.\<close>

definition sender_on_data ::
    "closure \<Rightarrow> observation list \<Rightarrow> app \<Rightarrow> packet \<Rightarrow> app option" where
  "sender_on_data cl obs s p =
     (if p = Approve then startChunkedUpload (seenFile cl) obs s
      else if p = Reject
      then Some (s\<lparr>status := FAILED, statusMessage := ''Receiver rejected.''\<rparr>)
      else Some s)"

subsection \<open>Decisions of the receiving user, and reset\<close>

text \<open>\<open>is_open\<close> is \<open>connRef.current.open\<close> when the button is pressed.\<close>

definition acceptTransfer :: "bool \<Rightarrow> app \<Rightarrow> app" where
  "acceptTransfer is_open s =
     (case connRef s of
        None \<Rightarrow> s
      | Some c \<Rightarrow>
          if \<not> is_open then s
          else (send c Approve s)
                 \<lparr>status := TRANSFERRING, statusMessage := ''Connecting to transfer...''\<rparr>)"

definition rejectTransfer :: "app \<Rightarrow> app" where
  "rejectTransfer s =
     (case connRef s of
        None \<Rightarrow> s
      | Some c \<Rightarrow>
          (send c Reject s)
            \<lparr>incomingMeta := None, status := IDLE, statusMessage := ''Request declined.''\<rparr>)"

text \<open>\<open>confirmed\<close> is the answer of the \<open>window.confirm\<close> dialog.\<close>

definition reset :: "bool \<Rightarrow> app \<Rightarrow> app" where
  "reset confirmed s =
     (if confirmed
      then setProgress (Num 0)
             (s\<lparr>status := IDLE, incomingMeta := None, receivedFileUrl := None,
                selectedFile := None\<rparr>)
             \<lparr>statusMessage := ''Online. Connect via Same Wi-Fi.''\<rparr>
      else s)"

section \<open>The component as an event-driven machine\<close>

datatype peer_error = UnavailableId | PeerUnavailable | OtherPeerError

text \<open>\<open>initPeer\<close> creates the peer and stores it in \<open>peerRef\<close>.\<close>

definition initPeer :: "app \<Rightarrow> app" where
  "initPeer s = s\<lparr>peerRef := True\<rparr>"

definition peer_on_open :: "app \<Rightarrow> app" where
  "peer_on_open s = s\<lparr>status := IDLE, statusMessage := ''Online. Connect via Same Wi-Fi.''\<rparr>"

definition peer_on_error :: "peer_error \<Rightarrow> app \<Rightarrow> app" where
  "peer_on_error k s =
     (case k of
        UnavailableId \<Rightarrow> initPeer s
      | PeerUnavailable \<Rightarrow>
          s\<lparr>statusMessage := ''Peer not found. Check ID.'', status := FAILED\<rparr>
      | OtherPeerError \<Rightarrow> s\<lparr>statusMessage := ''Network issue. Retrying...''\<rparr>)"

text \<open>
  Everything that can happen to the component: events of the peer and of a connection,
  timers firing, and the user's actions. An event carries what its handler reads from
  the environment.
\<close>

datatype event =
  InitPeer | PeerOpen | PeerError peer_error
  | SetTargetId string | SetActiveTab tab
  | IncomingConnection conn | ReceiverData packet | ReceiverClose | ReceiverError
  | ConnectToPeer conn | SenderOpen conn | SenderData conn packet "observation list"
  | SenderError conn | SenderClose conn | ConnectTimeout bool | RejectTimer
  | HeartbeatTick bool | Teardown
  | ProcessFile File | ClearFile | RequestSend | ForceStart "observation list"
  | AcceptTransfer bool | RejectTransfer | Reset bool

definition logIn :: "packet \<Rightarrow> app \<Rightarrow> app" where
  "logIn p s = s\<lparr>wire := wire s @ [In p]\<rparr>"

text \<open>
  The handler of each event. An event of an outgoing connection reaches a handler only
  if \<open>connectToPeer\<close> made that connection, and the handler runs with the closure of that
  call. The asynchronous \<open>startChunkedUpload\<close> is run as one step: events that arrive
  while it is suspended are taken after it has returned.
\<close>

fun handle :: "app \<Rightarrow> event \<Rightarrow> app option" where
  "handle s InitPeer = Some (initPeer s)"
| "handle s PeerOpen = Some (peer_on_open s)"
| "handle s (PeerError k) = Some (peer_on_error k s)"
| "handle s (SetTargetId v) = Some (s\<lparr>targetId := take 6 v\<rparr>)"
| "handle s (SetActiveTab t) = Some (s\<lparr>activeTab := t\<rparr>)"
| "handle s (IncomingConnection c) = Some (handleIncomingConnection c s)"
| "handle s (ReceiverData p) = Some (receiver_on_data (logIn p s) p)"
| "handle s ReceiverClose = Some (receiver_on_close s)"
| "handle s ReceiverError = Some (receiver_on_error s)"
| "handle s (ConnectToPeer c) = Some (connectToPeer c s)"
| "handle s (SenderOpen c) =
     (case closures s c of None \<Rightarrow> Some s | Some cl \<Rightarrow> Some (sender_on_open c s))"
| "handle s (SenderData c p obs) =
     (case closures s c of
        None \<Rightarrow> Some s
      | Some cl \<Rightarrow> sender_on_data cl obs (logIn p s) p)"
| "handle s (SenderError c) =
     (case closures s c of None \<Rightarrow> Some s | Some cl \<Rightarrow> Some (sender_on_error s))"
| "handle s (SenderClose c) =
     (case closures s c of None \<Rightarrow> Some s | Some cl \<Rightarrow> Some (sender_on_close cl s))"
| "handle s (ConnectTimeout b) = Some (connectTimeout b s)"
| "handle s RejectTimer = Some (rejectTimer s)"
| "handle s (HeartbeatTick b) = Some (heartbeatTick b s)"
| "handle s Teardown = Some (stopHeartbeat s)"
| "handle s (ProcessFile f) = Some (processFile f s)"
| "handle s ClearFile = Some (s\<lparr>selectedFile := None\<rparr>)"
| "handle s RequestSend = Some (requestSend s)"
| "handle s (ForceStart obs) = startChunkedUpload (selectedFile s) obs s"
| "handle s (AcceptTransfer b) = Some (acceptTransfer b s)"
| "handle s RejectTransfer = Some (rejectTransfer s)"
| "handle s (Reset b) = Some (reset b s)"

text \<open>The effect that copies \<open>incomingMeta\<close> into \<open>incomingMetaRef\<close> after a render.\<close>

definition commit :: "app \<Rightarrow> app" where
  "commit s = s\<lparr>incomingMetaRef := incomingMeta s\<rparr>"

definition step :: "app \<Rightarrow> event \<Rightarrow> app option" where
  "step s e = map_option commit (handle s e)"

fun run :: "app \<Rightarrow> event list \<Rightarrow> app option" where
  "run s [] = Some s"
| "run s (e # es) = (case step s e of None \<Rightarrow> None | Some s' \<Rightarrow> run s' es)"

text \<open>The initial values of the cells.\<close>

definition initial :: app where
  "initial =
     \<lparr>status = IDLE, statusMessage = ''Initializing...'', activeTab = SendTab,
      targetId = [], selectedFile = None, incomingMeta = None, receivedFileUrl = None,
      progress = Num 0, peerRef = False, connRef = None, incomingMetaRef = None,
      receivedChunksRef = [], receivedSizeRef = 0, heartbeatRef = None,
      closures = Map.empty, wire = [], progressLog = []\<rparr>"

text \<open>
  \<open>renderApp\<close>: whether the control that raises a user action is on screen (and enabled).
  The panel with the file chooser, the send button and the force-start button is shown
  on the send tab in \<open>CONNECTED\<close>, \<open>COMPLETED\<close> and \<open>WAITING_APPROVAL\<close>. The only status
  message that contains \<open>Connecting to transfer\<close> is the one \<open>acceptTransfer\<close> sets.
  Events that are not user actions are not constrained.
\<close>

definition filePanel :: "app \<Rightarrow> bool" where
  "filePanel s =
     (activeTab s = SendTab \<and>
      (status s = CONNECTED \<or> status s = COMPLETED \<or> status s = WAITING_APPROVAL))"

definition connectPanel :: "app \<Rightarrow> bool" where
  "connectPanel s = (activeTab s = SendTab \<and> (status s = IDLE \<or> status s = FAILED))"

definition requestModal :: "app \<Rightarrow> bool" where
  "requestModal s =
     (activeTab s = ReceiveTab \<and> incomingMeta s \<noteq> None \<and> status s = WAITING_APPROVAL)"

fun rendered :: "app \<Rightarrow> event \<Rightarrow> bool" where
  "rendered s (SetTargetId v) = connectPanel s"
| "rendered s (ConnectToPeer c) = (connectPanel s \<and> length (targetId s) = 6)"
| "rendered s (ProcessFile f) = filePanel s"
| "rendered s ClearFile = (filePanel s \<and> selectedFile s \<noteq> None)"
| "rendered s RequestSend =
     (filePanel s \<and> selectedFile s \<noteq> None \<and> status s \<noteq> WAITING_APPROVAL)"
| "rendered s (ForceStart obs) =
     (filePanel s \<and> selectedFile s \<noteq> None \<and> status s = WAITING_APPROVAL)"
| "rendered s (AcceptTransfer b) =
     (requestModal s \<or>
      (status s = TRANSFERRING \<and> statusMessage s = ''Connecting to transfer...''))"
| "rendered s RejectTransfer = requestModal s"
| "rendered s (Reset b) = (status s = COMPLETED \<or> status s = FAILED)"
| "rendered s e = True"

text \<open>A sequence of events in which every user action is raised by a control that is
  on screen at that moment, and every loop returns.\<close>

fun feasible :: "app \<Rightarrow> event list \<Rightarrow> bool" where
  "feasible s [] = True"
| "feasible s (e # es) =
     (rendered s e \<and> (case step s e of None \<Rightarrow> False | Some s' \<Rightarrow> feasible s' es))"

section \<open>Properties of traces\<close>

text \<open>
  \<open>approved b tr\<close>: in the wire log \<open>tr\<close>, every chunk that is sent comes after a
  received \<open>approve\<close>, and that \<open>approve\<close> is later than every offer sent before the chunk:
  an \<open>approve\<close> answers the offers made so far, and a new offer needs a new one. \<open>b\<close>
  says whether such an \<open>approve\<close> is at hand when \<open>tr\<close> starts.
\<close>

fun approved :: "bool \<Rightarrow> io list \<Rightarrow> bool" where
  "approved b [] = True"
| "approved b (In Approve # tr) = approved True tr"
| "approved b (Out c (FileMeta m) # tr) = approved False tr"
| "approved b (Out c (FileChunk x) # tr) = (b \<and> approved b tr)"
| "approved b (a # tr) = approved b tr"

text \<open>Whether an \<open>approve\<close> is at hand at the end of a wire log.\<close>

fun answered :: "bool \<Rightarrow> io list \<Rightarrow> bool" where
  "answered b [] = b"
| "answered b (In Approve # tr) = answered True tr"
| "answered b (Out c (FileMeta m) # tr) = answered False tr"
| "answered b (a # tr) = answered b tr"


fun isChunk :: "io \<Rightarrow> bool" where
  "isChunk (Out c (FileChunk x)) = True"
| "isChunk a = False"

text \<open>The chunks that a wire log sends, in order.\<close>

fun sentChunks :: "io list \<Rightarrow> bytes list" where
  "sentChunks [] = []"
| "sentChunks (Out c (FileChunk x) # tr) = x # sentChunks tr"
| "sentChunks (a # tr) = sentChunks tr"

text \<open>The packets that a wire log sends, in order.\<close>

fun sentPackets :: "io list \<Rightarrow> packet list" where
  "sentPackets [] = []"
| "sentPackets (Out c p # tr) = p # sentPackets tr"
| "sentPackets (In p # tr) = sentPackets tr"

text \<open>Delivery of a sequence of packets to the receiver's \<open>data\<close> handler.\<close>

definition deliver :: "app \<Rightarrow> packet list \<Rightarrow> app" where
  "deliver s ps = foldl receiver_on_data s ps"

text \<open>A list of progress reports all of which are integers between 0 and 100 and
  which never decrease.\<close>

fun percentage :: "jsnum \<Rightarrow> bool" where
  "percentage (Num n) = (0 \<le> n \<and> n \<le> 100)"
| "percentage Infinity = False"
| "percentage NaN = False"

fun js_le :: "jsnum \<Rightarrow> jsnum \<Rightarrow> bool" where
  "js_le (Num a) (Num b) = (a \<le> b)"
| "js_le (Num a) Infinity = True"
| "js_le Infinity Infinity = True"
| "js_le a b = False"

definition steady :: "jsnum list \<Rightarrow> bool" where
  "steady rs = (list_all percentage rs \<and> sorted_wrt js_le rs)"






section \<open>Scenarios\<close>

text \<open>Concrete files, observations and event sequences on which the theorems below
  are exercised.\<close>

definition abc :: File where
  "abc = \<lparr>file_name = ''a.txt'', file_bytes = [1, 2, 3], file_type = ''text/plain''\<rparr>"

definition big :: File where
  "big = \<lparr>file_name = ''a.txt'', file_bytes = replicate 65536 0, file_type = ''text/plain''\<rparr>"

definition void :: File where
  "void = \<lparr>file_name = ''e.txt'', file_bytes = [], file_type = ''text/plain''\<rparr>"

definition one :: File where
  "one = \<lparr>file_name = ''x.png'', file_bytes = [7], file_type = ''image/png''\<rparr>"

definition two :: File where
  "two = \<lparr>file_name = ''y.png'', file_bytes = [1, 2], file_type = ''image/png''\<rparr>"

text \<open>The descriptor that \<open>requestSend\<close> builds for a file.\<close>

definition describe :: "File \<Rightarrow> FileMetadata" where
  "describe f = \<lparr>meta_name = file_name f, meta_size = file_size f, meta_type = file_type f\<rparr>"

definition m10 :: FileMetadata where
  "m10 = \<lparr>meta_name = ''a.txt'', meta_size = 10, meta_type = ''text/plain''\<rparr>"

text \<open>An open channel with nothing buffered, and an open channel above the high-water
  mark.\<close>

definition clear :: observation where
  "clear = \<lparr>obs_open = True, obs_buffered = Some 0\<rparr>"

definition busy :: observation where
  "busy = \<lparr>obs_open = True, obs_buffered = Some 2000000\<rparr>"

text \<open>The sender enters the receiver's id and connects.\<close>

definition dial :: "event list" where
  "dial = [InitPeer, PeerOpen, SetTargetId ''123456'', ConnectToPeer 1]"

text \<open>The channel opens, the sender picks a file and offers it.\<close>

definition offer :: "File \<Rightarrow> event list" where
  "offer f = dial @ [SenderOpen 1, ProcessFile f, RequestSend]"

definition offering :: "File \<Rightarrow> app" where
  "offering f = the (run initial (offer f))"

text \<open>A sender whose first connection failed after a file was picked connects again,
  offers the file and is sent an \<open>approve\<close>.\<close>

definition redial :: "event list" where
  "redial =
     dial @ [SenderOpen 1, ProcessFile abc, SenderError 1, ConnectToPeer 2, SenderOpen 2,
             RequestSend, SenderData 2 Approve [clear]]"

text \<open>The sender offers a file of one byte, replaces it by a file of two bytes while it
  waits, and force-starts.\<close>

definition swap :: "event list" where
  "swap = offer one @ [ClearFile, ProcessFile two, ForceStart [clear]]"

text \<open>A receiver takes a connection and the packets \<open>ps\<close>.\<close>

definition receiving :: "packet list \<Rightarrow> event list" where
  "receiving ps = InitPeer # PeerOpen # IncomingConnection 1 # map ReceiverData ps"

text \<open>The receiver is offered a file and accepts.\<close>

definition accept :: "FileMetadata \<Rightarrow> event list" where
  "accept m = receiving [FileMeta m] @ [AcceptTransfer True]"

definition accepted :: "FileMetadata \<Rightarrow> app" where
  "accepted m = the (run initial (accept m))"

text \<open>The receiver accepts an offer of ten bytes and is sent three.\<close>

definition receive_short :: "event list" where
  "receive_short =
     accept m10 @ map ReceiverData [FileStart, FileChunk [1, 2, 3], FileEnd]"

text \<open>The receiver declines an offer and is sent the file all the same.\<close>

definition receive_undescribed :: "event list" where
  "receive_undescribed =
     receiving [FileMeta m10] @
     RejectTransfer # map ReceiverData [FileStart, FileChunk [1, 2, 3], FileEnd]"

text \<open>A receiver whose channel reports an error.\<close>

definition receive_error :: "event list" where
  "receive_error = receiving [] @ [ReceiverError]"

text \<open>The receiver is offered a file and declines.\<close>

definition decline :: "File \<Rightarrow> event list" where
  "decline f = receiving [FileMeta (describe f)] @ [RejectTransfer]"

text \<open>The sender offers a file and force-starts before the receiver's \<open>reject\<close> reaches
  it; then the \<open>reject\<close> arrives and the timer of its handler fires.\<close>

definition race :: "event list" where
  "race = offer abc @ [ForceStart [clear], SenderData 1 Reject [], RejectTimer]"

text \<open>The sender offers a file; the \<open>reject\<close> arrives and the timer of its handler
  fires.\<close>

definition refused :: "event list" where
  "refused = offer abc @ [SenderData 1 Reject [], RejectTimer]"

text \<open>What a receiver that has declined may see next: the file is sent all the same,
  its heartbeat fires, and the user changes the tab.\<close>

definition aftermath :: "event list" where
  "aftermath =
     map ReceiverData [FileStart, FileChunk [1, 2, 3], FileEnd] @
     [HeartbeatTick True, SetActiveTab SendTab]"

section \<open>Basic facts\<close>

lemmas handler_defs = send_def setProgress_def startHeartbeat_def stopHeartbeat_def
  heartbeatTick_def handleIncomingConnection_def receiver_on_close_def receiver_on_error_def
  connectToPeer_def sender_on_open_def sender_on_error_def sender_on_close_def
  connectTimeout_def rejectTimer_def processFile_def requestSend_def finishUpload_def
  startChunkedUpload_def sender_on_data_def acceptTransfer_def rejectTransfer_def reset_def
  initPeer_def peer_on_open_def peer_on_error_def logIn_def commit_def step_def

lemmas render_defs = filePanel_def connectPanel_def requestModal_def

lemmas scenario_defs = abc_def big_def void_def one_def two_def describe_def m10_def
  clear_def busy_def dial_def offer_def offering_def redial_def swap_def receiving_def
  accept_def accepted_def receive_short_def receive_undescribed_def receive_error_def
  decline_def race_def refused_def aftermath_def
  initial_def file_size_def slice_def backlogged_def CHUNK_SIZE_def MAX_BUFFER_AMOUNT_def

subsection \<open>Wire logs\<close>

lemma sentPackets_append: "sentPackets (xs @ ys) = sentPackets xs @ sentPackets ys"
  by (induction xs rule: sentPackets.induct) simp_all

lemma sentChunks_append: "sentChunks (xs @ ys) = sentChunks xs @ sentChunks ys"
  by (induction xs rule: sentChunks.induct) simp_all

lemma sentPackets_chunks: "sentPackets (map (\<lambda>x. Out c (FileChunk x)) cs) = map FileChunk cs"
  by (induction cs) simp_all

lemma sentChunks_chunks: "sentChunks (map (\<lambda>x. Out c (FileChunk x)) cs) = cs"
  by (induction cs) simp_all


lemma approved_append:
  "approved b (xs @ ys) = (approved b xs \<and> approved (answered b xs) ys)"
  by (induction b xs rule: approved.induct) simp_all

lemma approved_single: "\<not> isChunk a \<Longrightarrow> approved b [a]"
  by (cases "(b, [a])" rule: approved.cases) simp_all

lemma approved_snoc_quiet:
  "approved b tr \<Longrightarrow> \<not> isChunk a \<Longrightarrow> approved b (tr @ [a])"
  by (simp add: approved_append approved_single)


subsection \<open>Rounding to a double\<close>

lemma rne_of_int: "rne (of_int n) = n"
  by (simp add: rne_def)

lemma rne_bounds: "\<lfloor>x\<rfloor> \<le> rne x \<and> rne x \<le> \<lfloor>x\<rfloor> + 1"
  by (simp add: rne_def Let_def)

lemma rne_mono:
  assumes "x \<le> y"
  shows "rne x \<le> rne y"
proof (cases "\<lfloor>x\<rfloor> = \<lfloor>y\<rfloor>")
  case True
  with assms show ?thesis by (auto simp: rne_def Let_def)
next
  case False
  with assms have "\<lfloor>x\<rfloor> + 1 \<le> \<lfloor>y\<rfloor>"
    using floor_mono[OF assms] by linarith
  with rne_bounds[of x] rne_bounds[of y] show ?thesis by linarith
qed

lemma two_powi_pos: "0 < (2::rat) powi k"
  by (simp add: zero_less_power_int)

lemma two_powi_nat: "0 \<le> k \<Longrightarrow> (2::rat) powi k = of_int (2 ^ nat k)"
  by (simp add: power_int_def)

lemma two_powi_neg: "0 \<le> k \<Longrightarrow> (2::rat) powi (- k) = 1 / of_int (2 ^ nat k)"
  by (simp add: power_int_minus_divide power_int_def power_one_over)

lemma two_powi_split: "(2::rat) powi (a + b) = 2 powi a * 2 powi b"
  by (simp add: power_int_add)

lemma ilog2_spec:
  assumes "0 < x"
  shows "2 powi ilog2 x \<le> x \<and> x < 2 powi (ilog2 x + 1)"
proof (cases "1 \<le> x")
  case True
  let ?n = "\<lfloor>x\<rfloor>"
  from True have n: "0 < ?n" by linarith
  from bitlen_bounds[OF n] have lo: "2 ^ nat (bitlen ?n - 1) \<le> ?n"
    and hi: "?n < 2 ^ nat (bitlen ?n)" by simp_all
  from n have b: "1 \<le> bitlen ?n"
    using bitlen_eq_zero_iff[of ?n] bitlen_nonneg[of ?n] by linarith
  have e: "ilog2 x = bitlen ?n - 1" using True by (simp add: ilog2_def)
  have "(of_int (2 ^ nat (bitlen ?n - 1)) :: rat) \<le> of_int ?n"
    using lo by (simp only: of_int_le_iff)
  also have "\<dots> \<le> x" by simp
  finally have 1: "2 powi ilog2 x \<le> x"
    using b by (simp add: e two_powi_nat)
  have "x < of_int (?n + 1)" by linarith
  also have "\<dots> \<le> of_int (2 ^ nat (bitlen ?n))"
  proof -
    from hi have "?n + 1 \<le> 2 ^ nat (bitlen ?n)" by simp
    then show ?thesis by (simp only: of_int_le_iff)
  qed
  finally have 2: "x < 2 powi (ilog2 x + 1)"
    using b by (simp add: e two_powi_nat)
  from 1 2 show ?thesis by blast
next
  case False
  let ?y = "1 / x"
  let ?k = "\<lceil>?y\<rceil> - 1"
  from False assms have y: "1 < ?y" by simp
  then have k: "0 < ?k" by linarith
  from bitlen_bounds[OF k] have lo: "2 ^ nat (bitlen ?k - 1) \<le> ?k"
    and hi: "?k < 2 ^ nat (bitlen ?k)" by simp_all
  from k have b: "1 \<le> bitlen ?k"
    using bitlen_eq_zero_iff[of ?k] bitlen_nonneg[of ?k] by linarith
  have e: "ilog2 x = - bitlen ?k" using False by (simp add: ilog2_def)
  have ky: "of_int ?k < ?y" by linarith
  have yk: "?y \<le> of_int (?k + 1)" by linarith
  have "(of_int (2 ^ nat (bitlen ?k - 1)) :: rat) \<le> of_int ?k"
    using lo by (simp only: of_int_le_iff)
  with ky have low: "(of_int (2 ^ nat (bitlen ?k - 1)) :: rat) < ?y" by linarith
  have "(of_int (?k + 1) :: rat) \<le> of_int (2 ^ nat (bitlen ?k))"
  proof -
    from hi have "?k + 1 \<le> 2 ^ nat (bitlen ?k)" by simp
    then show ?thesis by (simp only: of_int_le_iff)
  qed
  with yk have high: "?y \<le> (of_int (2 ^ nat (bitlen ?k)) :: rat)" by linarith
  have p1: "(0::rat) < of_int (2 ^ nat (bitlen ?k))" by simp
  have p2: "(0::rat) < of_int (2 ^ nat (bitlen ?k - 1))" by simp
  from high assms p1 have "1 / of_int (2 ^ nat (bitlen ?k)) \<le> x"
    by (simp add: field_simps)
  then have 1: "2 powi ilog2 x \<le> x"
    using b by (simp add: e two_powi_neg)
  from low assms p2 have "x < 1 / of_int (2 ^ nat (bitlen ?k - 1))"
    by (simp add: field_simps)
  moreover have "ilog2 x + 1 = - (bitlen ?k - 1)" by (simp add: e)
  ultimately have 2: "x < 2 powi (ilog2 x + 1)"
    using b two_powi_neg[of "bitlen ?k - 1"] by simp
  from 1 2 show ?thesis by blast
qed

lemma two_powi_le_less:
  assumes "(2::rat) powi a \<le> x" and "x < 2 powi (b + 1)"
  shows "a \<le> b"
proof (rule ccontr)
  assume "\<not> a \<le> b"
  then have "b + 1 \<le> a" by simp
  then have "(2::rat) powi (b + 1) \<le> 2 powi a"
    by (intro power_int_increasing) simp_all
  with assms show False by linarith
qed

lemma ilog2_unique:
  assumes "0 < x" and "2 powi e \<le> x" and "x < 2 powi (e + 1)"
  shows "ilog2 x = e"
proof -
  from ilog2_spec[OF assms(1)] have s: "2 powi ilog2 x \<le> x" "x < 2 powi (ilog2 x + 1)"
    by simp_all
  from two_powi_le_less[OF assms(2) s(2)] two_powi_le_less[OF s(1) assms(3)]
  show ?thesis by simp
qed

lemma ilog2_mono:
  assumes "0 < x" and "x \<le> y"
  shows "ilog2 x \<le> ilog2 y"
proof -
  from assms have y: "0 < y" by simp
  from ilog2_spec[OF assms(1)] have "2 powi ilog2 x \<le> y" using assms(2) by simp
  moreover from ilog2_spec[OF y] have "y < 2 powi (ilog2 y + 1)" by simp
  ultimately show ?thesis by (rule two_powi_le_less)
qed

lemma fl_pos_unfold:
  "0 < x \<Longrightarrow> fl x = of_int (rne (x / 2 powi (ilog2 x - 52))) * 2 powi (ilog2 x - 52)"
  by (simp add: fl_def Let_def)

lemma fl_bounds:
  assumes "0 < x"
  shows "2 powi ilog2 x \<le> fl x \<and> fl x \<le> 2 powi (ilog2 x + 1)"
proof -
  let ?e = "ilog2 x"
  let ?u = "(2::rat) powi (?e - 52)"
  have u: "0 < ?u" by (rule two_powi_pos)
  have lo_eq: "(2::rat) powi ?e = of_int (2 ^ 52) * ?u"
    using two_powi_split[of 52 "?e - 52"] by (simp add: two_powi_nat)
  have h: "?e + 1 = 53 + (?e - 52)" by simp
  have hi_eq: "(2::rat) powi (?e + 1) = of_int (2 ^ 53) * ?u"
    by (subst h, subst two_powi_split) simp
  from ilog2_spec[OF assms] have "of_int (2 ^ 52) * ?u \<le> x" and "x < of_int (2 ^ 53) * ?u"
    by (simp_all only: lo_eq hi_eq)
  with u have m: "of_int (2 ^ 52) \<le> x / ?u" "x / ?u \<le> of_int (2 ^ 53)"
    by (simp_all add: field_simps)
  have "rne (of_int (2 ^ 52)) \<le> rne (x / ?u)" and "rne (x / ?u) \<le> rne (of_int (2 ^ 53))"
    using m by (simp_all only: rne_mono)
  then have "2 ^ 52 \<le> rne (x / ?u)" and "rne (x / ?u) \<le> 2 ^ 53"
    by (simp_all only: rne_of_int)
  then have "(of_int (2 ^ 52) :: rat) \<le> of_int (rne (x / ?u))"
    and "(of_int (rne (x / ?u)) :: rat) \<le> of_int (2 ^ 53)"
    by (simp_all only: of_int_le_iff)
  with u have "of_int (2 ^ 52) * ?u \<le> of_int (rne (x / ?u)) * ?u"
    and "of_int (rne (x / ?u)) * ?u \<le> of_int (2 ^ 53) * ?u"
    by (simp_all only: mult_le_cancel_right_pos)
  then show ?thesis
    by (simp only: lo_eq hi_eq fl_pos_unfold[OF assms])
qed

lemma fl_pos: "0 < x \<Longrightarrow> 0 < fl x"
  using fl_bounds[of x] two_powi_pos[of "ilog2 x"] by linarith

lemma fl_nonneg: "0 \<le> x \<Longrightarrow> 0 \<le> fl x"
  using fl_pos[of x] by (cases "x = 0") (simp_all add: fl_def)

lemma fl_mono:
  assumes "0 \<le> x" and "x \<le> y"
  shows "fl x \<le> fl y"
proof (cases "x = 0")
  case True
  with assms fl_nonneg[of y] show ?thesis by (simp add: fl_def)
next
  case False
  with assms have x: "0 < x" and y: "0 < y" by simp_all
  show ?thesis
  proof (cases "ilog2 x = ilog2 y")
    case True
    let ?u = "(2::rat) powi (ilog2 y - 52)"
    have u: "0 < ?u" by (rule two_powi_pos)
    from assms(2) u have "x / ?u \<le> y / ?u" by (simp add: divide_right_mono)
    then have "rne (x / ?u) \<le> rne (y / ?u)" by (rule rne_mono)
    then have "(of_int (rne (x / ?u)) :: rat) \<le> of_int (rne (y / ?u))"
      by (simp only: of_int_le_iff)
    with u have "of_int (rne (x / ?u)) * ?u \<le> of_int (rne (y / ?u)) * ?u"
      by (simp only: mult_le_cancel_right_pos)
    then show ?thesis by (simp only: fl_pos_unfold[OF x] fl_pos_unfold[OF y] True)
  next
    case False
    with ilog2_mono[OF x assms(2)] have "ilog2 x + 1 \<le> ilog2 y" by simp
    then have "(2::rat) powi (ilog2 x + 1) \<le> 2 powi ilog2 y"
      by (intro power_int_increasing) simp_all
    with fl_bounds[OF x] fl_bounds[OF y] show ?thesis by linarith
  qed
qed

lemma fl_1: "fl 1 = 1"
  by code_simp

lemma fl_100: "fl 100 = 100"
  by code_simp

subsection \<open>Percentages\<close>

lemma js_round_mono: "x \<le> y \<Longrightarrow> js_round x \<le> js_round y"
  by (simp add: js_round_def floor_mono)

text \<open>The double that the source rounds.\<close>

lemma scaled_mono:
  assumes "0 < b" and "a \<le> a'"
  shows "fl (fl (fl (of_nat a) / fl (of_nat b)) * 100) \<le>
         fl (fl (fl (of_nat a') / fl (of_nat b)) * 100)"
proof -
  have b: "0 < fl (of_nat b)" using assms(1) by (intro fl_pos) simp
  have "fl (of_nat a) \<le> fl (of_nat a')" using assms(2) by (intro fl_mono) simp_all
  with b have "fl (of_nat a) / fl (of_nat b) \<le> fl (of_nat a') / fl (of_nat b)"
    by (simp add: divide_right_mono)
  moreover have "0 \<le> fl (of_nat a) / fl (of_nat b)"
    using b fl_nonneg[of "of_nat a"] by simp
  ultimately have q: "fl (fl (of_nat a) / fl (of_nat b)) \<le> fl (fl (of_nat a') / fl (of_nat b))"
    by (intro fl_mono)
  have "0 \<le> fl (fl (of_nat a) / fl (of_nat b))"
    using b fl_nonneg[of "of_nat a"] by (intro fl_nonneg) simp
  with q show ?thesis by (intro fl_mono) simp_all
qed

lemma scaled_nonneg:
  assumes "0 < b"
  shows "0 \<le> fl (fl (fl (of_nat a) / fl (of_nat b)) * 100)"
proof -
  have b: "0 < fl (of_nat b)" using assms(1) by (intro fl_pos) simp
  have "0 \<le> fl (fl (of_nat a) / fl (of_nat b))"
    using b fl_nonneg[of "of_nat a"] by (intro fl_nonneg) simp
  then show ?thesis by (intro fl_nonneg) simp
qed

lemma scaled_le_100:
  assumes "0 < b" and "a \<le> b"
  shows "fl (fl (fl (of_nat a) / fl (of_nat b)) * 100) \<le> 100"
proof -
  have b: "0 < fl (of_nat b)" using assms(1) by (intro fl_pos) simp
  have "fl (of_nat a) \<le> fl (of_nat b)" using assms(2) by (intro fl_mono) simp_all
  with b have le1: "fl (of_nat a) / fl (of_nat b) \<le> 1" by simp
  have nn: "0 \<le> fl (of_nat a) / fl (of_nat b)"
    using b fl_nonneg[of "of_nat a"] by simp
  from fl_mono[OF nn le1] have q1: "fl (fl (of_nat a) / fl (of_nat b)) \<le> 1"
    by (simp only: fl_1)
  have q0: "0 \<le> fl (fl (of_nat a) / fl (of_nat b))" using nn by (rule fl_nonneg)
  from q0 q1 have "0 \<le> fl (fl (of_nat a) / fl (of_nat b)) * 100"
    and "fl (fl (of_nat a) / fl (of_nat b)) * 100 \<le> 100" by simp_all
  from fl_mono[OF this] show ?thesis by (simp only: fl_100)
qed

lemma percent_pos:
  "0 < b \<Longrightarrow> percent a b = Num (js_round (fl (fl (fl (of_nat a) / fl (of_nat b)) * 100)))"
  by (simp add: percent_def)

lemma percent_mono:
  assumes "0 < b" and "a \<le> a'"
  shows "js_le (percent a b) (percent a' b)"
  using js_round_mono[OF scaled_mono[OF assms]]
  by (simp only: percent_pos[OF assms(1)] js_le.simps)

lemma js_round_nonneg: "0 \<le> x \<Longrightarrow> 0 \<le> js_round x"
  by (simp add: js_round_def)

lemma js_round_le_100: "x \<le> 100 \<Longrightarrow> js_round x \<le> 100"
proof -
  assume "x \<le> 100"
  then have "x + 1 / 2 < 101" by simp
  then have "\<lfloor>x + 1 / 2\<rfloor> < 101" by (simp add: floor_less_iff)
  then show ?thesis by (simp add: js_round_def)
qed

lemma percent_percentage:
  assumes "0 < b" and "a \<le> b"
  shows "percentage (percent a b)"
  using js_round_nonneg[OF scaled_nonneg[OF assms(1), of a]]
    js_round_le_100[OF scaled_le_100[OF assms]]
  by (simp only: percent_pos[OF assms(1)] percentage.simps)

lemma min100_percent_percentage:
  assumes "0 < b"
  shows "percentage (min100 (percent a b))"
  using js_round_nonneg[OF scaled_nonneg[OF assms, of a]]
  by (simp only: percent_pos[OF assms] min100.simps percentage.simps) simp

text \<open>Values of the scenarios, and two values on which rounding the exact quotient
  would give 58.\<close>

lemma percent_values:
  "percent 3 10 = Num 30" "percent 2 1 = Num 200"
  "percent 32768 65536 = Num 50" "percent 65536 65536 = Num 100"
  "percent 32768 3 = Num 1092267" "percent 32768 2 = Num 1638400"
  "percent 23 40 = Num 57" "percent 753664 1310720 = Num 57"
  by (simp_all add: percent_def) code_simp+

lemma percent_two_one: "percent (Suc (Suc 0)) (Suc 0) = Num 200"
  using percent_values(2) by (simp only: numeral_2_eq_2 One_nat_def)

lemma min100_mono: "js_le x y \<Longrightarrow> js_le (min100 x) (min100 y)"
  by (cases x; cases y) auto

lemma js_le_trans: "js_le x y \<Longrightarrow> js_le y z \<Longrightarrow> js_le x z"
  by (cases x; cases y; cases z) auto

lemma js_le_all_trans: "js_le x y \<Longrightarrow> list_all (js_le y) rs \<Longrightarrow> list_all (js_le x) rs"
  by (induction rs) (auto intro: js_le_trans)

lemma percentage_le_100: "percentage x \<Longrightarrow> js_le x (Num 100)"
  by (cases x) auto

lemma percentage_ge_0: "percentage x \<Longrightarrow> js_le (Num 0) x"
  by (cases x) auto

subsection \<open>The receiver's buffer\<close>

lemma deliver_append: "deliver r (ps @ qs) = deliver (deliver r ps) qs"
  by (simp add: deliver_def)

lemma deliver_Cons: "deliver r (p # ps) = deliver (receiver_on_data r p) ps"
  by (simp add: deliver_def)

lemma deliver_Nil: "deliver r [] = r"
  by (simp add: deliver_def)


text \<open>The packets of a transfer leave the descriptor alone, so it does not matter
  whether the effect that mirrors it into \<open>incomingMetaRef\<close> runs between two of them.\<close>

lemma commit_between_packets:
  assumes "incomingMetaRef s = incomingMeta s"
    and "p = FileStart \<or> p = FileEnd \<or> p = Heartbeat \<or> (\<exists>x. p = FileChunk x)"
  shows "commit (receiver_on_data s p) = receiver_on_data s p"
  using assms by (auto simp: commit_def setProgress_def Let_def split: option.splits)

text \<open>A heartbeat changes nothing at the receiver, so heartbeats that arrive among the
  packets of a transfer do not matter.\<close>

lemma deliver_heartbeats: "deliver r (filter (\<lambda>p. p \<noteq> Heartbeat) ps) = deliver r ps"
  by (induction ps arbitrary: r) (simp_all add: deliver_Cons deliver_Nil)

lemma deliver_chunks:
  "receivedChunksRef (deliver r (map FileChunk cs)) = receivedChunksRef r @ cs \<and>
   receivedSizeRef (deliver r (map FileChunk cs)) = receivedSizeRef r + length (concat cs) \<and>
   incomingMetaRef (deliver r (map FileChunk cs)) = incomingMetaRef r"
proof (induction cs arbitrary: r)
  case Nil
  show ?case by (simp add: deliver_Nil)
next
  case (Cons x cs)
  show ?case
    by (simp add: deliver_Cons Cons.IH Let_def setProgress_def split: option.splits)
qed

lemma deliver_chunks_progress:
  "incomingMetaRef r = Some m \<Longrightarrow> 0 < meta_size m \<Longrightarrow>
   receivedSizeRef r + length (concat cs) \<le> meta_size m \<Longrightarrow>
   \<exists>rs. progressLog (deliver r (map FileChunk cs)) = progressLog r @ rs \<and>
        list_all percentage rs \<and> sorted_wrt js_le rs \<and>
        list_all (js_le (percent (receivedSizeRef r) (meta_size m))) rs \<and>
        incomingMetaRef (deliver r (map FileChunk cs)) = Some m"
proof (induction cs arbitrary: r)
  case Nil
  then show ?case by (simp add: deliver_Nil)
next
  case (Cons x cs)
  let ?n = "receivedSizeRef r + length x"
  let ?r0 = "percent ?n (meta_size m)"
  let ?r1 = "receiver_on_data r (FileChunk x)"
  have r1: "incomingMetaRef ?r1 = Some m \<and> receivedSizeRef ?r1 = ?n \<and>
            progressLog ?r1 = progressLog r @ [?r0]"
    using Cons.prems(1) by (simp add: Let_def setProgress_def)
  have le: "receivedSizeRef ?r1 + length (concat cs) \<le> meta_size m"
    using Cons.prems(3) r1 by simp
  from Cons.IH[of ?r1, OF _ Cons.prems(2) le] r1 obtain rs where
    p: "progressLog (deliver ?r1 (map FileChunk cs)) = progressLog ?r1 @ rs"
    and a: "list_all percentage rs"
    and so: "sorted_wrt js_le rs"
    and lb: "list_all (js_le ?r0) rs"
    and mm: "incomingMetaRef (deliver ?r1 (map FileChunk cs)) = Some m"
    by auto
  have nle: "?n \<le> meta_size m" using Cons.prems(3) by simp
  have step: "js_le (percent (receivedSizeRef r) (meta_size m)) ?r0"
    by (intro percent_mono Cons.prems(2)) simp
  have "progressLog (deliver r (map FileChunk (x # cs))) = progressLog r @ (?r0 # rs)"
    using p r1 by (simp add: deliver_Cons)
  moreover have "list_all percentage (?r0 # rs)"
    using a percent_percentage[OF Cons.prems(2) nle] by simp
  moreover have "sorted_wrt js_le (?r0 # rs)"
    using so lb by (simp add: list_all_iff)
  moreover have "list_all (js_le (percent (receivedSizeRef r) (meta_size m))) (?r0 # rs)"
    using step js_le_all_trans[OF step lb] by simp
  moreover have "incomingMetaRef (deliver r (map FileChunk (x # cs))) = Some m"
    using mm by (simp add: deliver_Cons)
  ultimately show ?case by blast
qed

lemma receive_progress:
  assumes "incomingMetaRef r = Some m"
    and "length (concat cs) \<le> meta_size m"
    and "0 < meta_size m \<or> cs = []"
  shows "steady (drop (length (progressLog r))
           (progressLog (deliver r (FileStart # map FileChunk cs @ [FileEnd]))))"
proof -
  let ?r0 = "receiver_on_data r FileStart"
  let ?r1 = "deliver ?r0 (map FileChunk cs)"
  have r0: "incomingMetaRef ?r0 = Some m \<and> receivedSizeRef ?r0 = 0 \<and>
            progressLog ?r0 = progressLog r @ [Num 0]"
    using assms(1) by (simp add: setProgress_def)
  have "\<exists>rs. progressLog ?r1 = progressLog ?r0 @ rs \<and> list_all percentage rs \<and>
             sorted_wrt js_le rs \<and> incomingMetaRef ?r1 = Some m"
  proof (cases "cs = []")
    case True
    then show ?thesis using r0 by (simp add: deliver_Nil)
  next
    case False
    with assms(3) have pos: "0 < meta_size m" by simp
    from deliver_chunks_progress[of ?r0 m cs] r0 pos assms(2) show ?thesis by auto
  qed
  then obtain rs where
    p: "progressLog ?r1 = progressLog ?r0 @ rs"
    and a: "list_all percentage rs"
    and so: "sorted_wrt js_le rs"
    and mm: "incomingMetaRef ?r1 = Some m"
    by blast
  have "progressLog (receiver_on_data ?r1 FileEnd) = progressLog ?r1 @ [Num 100]"
    using mm by (simp add: setProgress_def)
  then have "progressLog (deliver r (FileStart # map FileChunk cs @ [FileEnd])) =
             progressLog r @ (Num 0 # rs @ [Num 100])"
    using p r0 by (simp add: deliver_Cons deliver_append deliver_Nil)
  moreover have "list_all percentage (Num 0 # rs @ [Num 100])" using a by simp
  moreover have "sorted_wrt js_le (Num 0 # rs @ [Num 100])"
    using so a by (auto simp: sorted_wrt_append list_all_iff percentage_le_100 percentage_ge_0)
  ultimately show ?thesis by (simp add: steady_def)
qed

subsection \<open>The chunk loop\<close>

lemma slice_step:
  "off < length xs \<Longrightarrow> slice xs off (off + CHUNK_SIZE) @ drop (off + CHUNK_SIZE) xs = drop off xs"
proof -
  have "take CHUNK_SIZE (drop off xs) @ drop CHUNK_SIZE (drop off xs) = drop off xs"
    by (rule append_take_drop_id)
  then show ?thesis by (simp add: slice_def add.commute)
qed

lemma slice_bounds:
  "off < length xs \<Longrightarrow>
   slice xs off (off + CHUNK_SIZE) \<noteq> [] \<and> length (slice xs off (off + CHUNK_SIZE)) \<le> CHUNK_SIZE"
  by (simp add: slice_def CHUNK_SIZE_def)

text \<open>The loop returns, completed, as soon as the channel stays open and is found
  below the high-water mark often enough to carry the file.\<close>

lemma chunkLoop_returns:
  "list_all obs_open obs \<Longrightarrow>
   file_size f \<le> off + length (filter (\<lambda>ob. \<not> backlogged ob) obs) * CHUNK_SIZE \<Longrightarrow>
   \<exists>s'. chunkLoop c f off obs s = Some s' \<and> status s' = COMPLETED"
proof (induction obs arbitrary: off s)
  case Nil
  then show ?case by (simp add: finishUpload_def)
next
  case (Cons ob obs)
  show ?case
  proof (cases "off < file_size f")
    case False
    then show ?thesis by (simp add: finishUpload_def)
  next
    case True
    from Cons.prems(1) have op: "obs_open ob" and rest: "list_all obs_open obs" by simp_all
    show ?thesis
    proof (cases "backlogged ob")
      case True
      with Cons.prems(2) have
        "file_size f \<le> off + length (filter (\<lambda>ob. \<not> backlogged ob) obs) * CHUNK_SIZE"
        by simp
      from Cons.IH[OF rest this, of s] \<open>off < file_size f\<close> op True show ?thesis by simp
    next
      case False
      with Cons.prems(2) have
        "file_size f \<le> (off + CHUNK_SIZE) +
           length (filter (\<lambda>ob. \<not> backlogged ob) obs) * CHUNK_SIZE"
        by simp
      from Cons.IH[OF rest this] \<open>off < file_size f\<close> op False show ?thesis by simp
    qed
  qed
qed

lemma chunkLoop_completed:
  "chunkLoop c f off obs s = Some s' \<Longrightarrow> status s' = COMPLETED \<Longrightarrow>
   \<exists>cs. wire s' = wire s @ map (\<lambda>x. Out c (FileChunk x)) cs @ [Out c FileEnd] \<and>
        concat cs = drop off (file_bytes f) \<and>
        list_all (\<lambda>x. x \<noteq> [] \<and> length x \<le> CHUNK_SIZE) cs"
proof (induction obs arbitrary: off s)
  case Nil
  then show ?case
    by (auto simp: finishUpload_def send_def file_size_def split: if_splits intro!: exI[of _ "[]"])
next
  case (Cons ob obs)
  show ?case
  proof (cases "off < file_size f")
    case False
    with Cons.prems show ?thesis
      by (auto simp: finishUpload_def send_def file_size_def intro!: exI[of _ "[]"])
  next
    case True
    note lt = this
    show ?thesis
    proof (cases "obs_open ob")
      case False
      with lt Cons.prems show ?thesis by auto
    next
      case True
      note op = this
      show ?thesis
      proof (cases "backlogged ob")
        case True
        with lt op Cons.prems have "chunkLoop c f off obs s = Some s'" by simp
        from Cons.IH[OF this Cons.prems(2)] show ?thesis .
      next
        case False
        let ?x = "slice (file_bytes f) off (off + CHUNK_SIZE)"
        let ?s1 = "setProgress (min100 (percent (off + CHUNK_SIZE) (file_size f)))
                     (send c (FileChunk ?x) s)"
        from False lt op Cons.prems
        have "chunkLoop c f (off + CHUNK_SIZE) obs ?s1 = Some s'" by simp
        from Cons.IH[OF this Cons.prems(2)] obtain cs where
          w: "wire s' = wire ?s1 @ map (\<lambda>x. Out c (FileChunk x)) cs @ [Out c FileEnd]"
          and cc: "concat cs = drop (off + CHUNK_SIZE) (file_bytes f)"
          and la: "list_all (\<lambda>x. x \<noteq> [] \<and> length x \<le> CHUNK_SIZE) cs"
          by blast
        have w1: "wire ?s1 = wire s @ [Out c (FileChunk ?x)]"
          by (simp add: setProgress_def send_def)
        from lt have lt': "off < length (file_bytes f)" by (simp add: file_size_def)
        have "wire s' = wire s @ map (\<lambda>x. Out c (FileChunk x)) (?x # cs) @ [Out c FileEnd]"
          using w w1 by simp
        moreover have "concat (?x # cs) = drop off (file_bytes f)"
          using cc slice_step[OF lt'] by simp
        moreover have "list_all (\<lambda>x. x \<noteq> [] \<and> length x \<le> CHUNK_SIZE) (?x # cs)"
          using la slice_bounds[OF lt'] by simp
        ultimately show ?thesis by blast
      qed
    qed
  qed
qed

lemma chunkLoop_progress:
  "chunkLoop c f off obs s = Some s' \<Longrightarrow>
   \<exists>rs. progressLog s' = progressLog s @ rs \<and> list_all percentage rs \<and>
        sorted_wrt js_le rs \<and>
        list_all (js_le (min100 (percent off (file_size f)))) rs"
proof (induction obs arbitrary: off s)
  case Nil
  then show ?case
    by (auto simp: finishUpload_def send_def split: if_splits)
next
  case (Cons ob obs)
  show ?case
  proof (cases "off < file_size f \<and> obs_open ob")
    case False
    with Cons.prems show ?thesis
      by (auto simp: finishUpload_def send_def split: if_splits)
  next
    case True
    then have lt: "off < file_size f" and op: "obs_open ob" by simp_all
    from lt have pos: "0 < file_size f" by simp
    show ?thesis
    proof (cases "backlogged ob")
      case True
      with lt op Cons.prems have "chunkLoop c f off obs s = Some s'" by simp
      from Cons.IH[OF this] show ?thesis .
    next
      case False
      let ?r0 = "min100 (percent (off + CHUNK_SIZE) (file_size f))"
      let ?s1 = "setProgress ?r0
                   (send c (FileChunk (slice (file_bytes f) off (off + CHUNK_SIZE))) s)"
      from False lt op Cons.prems
      have "chunkLoop c f (off + CHUNK_SIZE) obs ?s1 = Some s'" by simp
      from Cons.IH[OF this] obtain rs where
        p: "progressLog s' = progressLog ?s1 @ rs"
        and a: "list_all percentage rs"
        and so: "sorted_wrt js_le rs"
        and lb: "list_all (js_le ?r0) rs"
        by blast
      have p1: "progressLog ?s1 = progressLog s @ [?r0]"
        by (simp add: setProgress_def send_def)
      have step: "js_le (min100 (percent off (file_size f))) ?r0"
        by (intro min100_mono percent_mono pos) simp
      have "progressLog s' = progressLog s @ (?r0 # rs)" using p p1 by simp
      moreover have "list_all percentage (?r0 # rs)"
        using a min100_percent_percentage[OF pos] by simp
      moreover have "sorted_wrt js_le (?r0 # rs)"
        using so lb by (simp add: list_all_iff)
      moreover have "list_all (js_le (min100 (percent off (file_size f)))) (?r0 # rs)"
        using step js_le_all_trans[OF step lb] by simp
      ultimately show ?thesis by blast
    qed
  qed
qed


text \<open>Observations that come after the loop has returned are not read.\<close>

lemma chunkLoop_extend:
  "chunkLoop c f off pre s = Some s' \<Longrightarrow> chunkLoop c f off (pre @ post) s = Some s'"
proof (induction pre arbitrary: off s)
  case Nil
  then show ?case by (cases post) (simp_all split: if_splits)
next
  case (Cons ob pre)
  show ?case
  proof (cases "off < file_size f \<and> obs_open ob")
    case False
    with Cons.prems show ?thesis by (auto split: if_splits)
  next
    case True
    show ?thesis
    proof (cases "backlogged ob")
      case True
      with \<open>off < file_size f \<and> obs_open ob\<close> Cons.prems
      have "chunkLoop c f off pre s = Some s'" by simp
      from Cons.IH[OF this] True \<open>off < file_size f \<and> obs_open ob\<close> show ?thesis by simp
    next
      case False
      let ?s1 = "setProgress (min100 (percent (off + CHUNK_SIZE) (file_size f)))
                   (send c (FileChunk (slice (file_bytes f) off (off + CHUNK_SIZE))) s)"
      from False True Cons.prems
      have "chunkLoop c f (off + CHUNK_SIZE) pre ?s1 = Some s'" by simp
      from Cons.IH[OF this] False True show ?thesis by simp
    qed
  qed
qed

subsection \<open>A whole upload\<close>

text \<open>The state in which \<open>startChunkedUpload\<close> enters its loop.\<close>

lemma upload_unfold:
  "connRef s = Some c \<Longrightarrow>
   startChunkedUpload (Some f) obs s =
     chunkLoop c f 0 obs
       ((send c FileStart
           (s\<lparr>status := TRANSFERRING, statusMessage := ''Starting transfer...''\<rparr>))
          \<lparr>statusMessage := ''Sending file...''\<rparr>)"
  by (simp add: startChunkedUpload_def)

text \<open>
  The upload returns, completed, once the channel has stayed open long enough: it is
  enough that among the first \<open>n\<close> observations, all open, the channel is found below
  the high-water mark often enough to carry the file.
\<close>

lemma upload_returns:
  assumes "connRef s = Some c" and "list_all obs_open (take n obs)"
    and "file_size f \<le>
           length (filter (\<lambda>ob. \<not> backlogged ob) (take n obs)) * CHUNK_SIZE"
  shows "\<exists>s'. startChunkedUpload (Some f) obs s = Some s' \<and> status s' = COMPLETED"
proof -
  let ?s0 = "(send c FileStart
                (s\<lparr>status := TRANSFERRING, statusMessage := ''Starting transfer...''\<rparr>))
               \<lparr>statusMessage := ''Sending file...''\<rparr>"
  from chunkLoop_returns[of "take n obs" f 0 c ?s0] assms(2,3) obtain s' where
    r: "chunkLoop c f 0 (take n obs) ?s0 = Some s'" and st: "status s' = COMPLETED"
    by auto
  from chunkLoop_extend[OF r, of "drop n obs"]
  have "chunkLoop c f 0 obs ?s0 = Some s'" by simp
  with st assms(1) show ?thesis by (simp add: upload_unfold)
qed

lemma upload_completed:
  assumes "connRef s = Some c" and "startChunkedUpload (Some f) obs s = Some s'"
    and "status s' = COMPLETED"
  shows "\<exists>cs. wire s' =
               wire s @ Out c FileStart # map (\<lambda>x. Out c (FileChunk x)) cs @ [Out c FileEnd] \<and>
        concat cs = file_bytes f \<and>
        list_all (\<lambda>x. x \<noteq> [] \<and> length x \<le> CHUNK_SIZE) cs"
proof -
  let ?s0 = "(send c FileStart
                (s\<lparr>status := TRANSFERRING, statusMessage := ''Starting transfer...''\<rparr>))
               \<lparr>statusMessage := ''Sending file...''\<rparr>"
  from assms have "chunkLoop c f 0 obs ?s0 = Some s'"
    by (simp add: upload_unfold)
  from chunkLoop_completed[OF this assms(3)] obtain cs where
    "wire s' = wire ?s0 @ map (\<lambda>x. Out c (FileChunk x)) cs @ [Out c FileEnd]"
    "concat cs = drop 0 (file_bytes f)"
    "list_all (\<lambda>x. x \<noteq> [] \<and> length x \<le> CHUNK_SIZE) cs"
    by blast
  moreover have "wire ?s0 = wire s @ [Out c FileStart]" by (simp add: send_def)
  ultimately show ?thesis by auto
qed

lemma upload_progress:
  assumes "startChunkedUpload sel obs s = Some s'"
  shows "steady (drop (length (progressLog s)) (progressLog s'))"
proof (cases "connRef s")
  case None
  with assms show ?thesis by (simp add: startChunkedUpload_def steady_def)
next
  case (Some c)
  show ?thesis
  proof (cases sel)
    case None
    with Some assms show ?thesis by (simp add: startChunkedUpload_def steady_def)
  next
    case (Some f)
    let ?s0 = "(send c FileStart
                  (s\<lparr>status := TRANSFERRING, statusMessage := ''Starting transfer...''\<rparr>))
                 \<lparr>statusMessage := ''Sending file...''\<rparr>"
    from assms Some \<open>connRef s = Some c\<close> have "chunkLoop c f 0 obs ?s0 = Some s'"
      by (simp add: upload_unfold)
    from chunkLoop_progress[OF this] obtain rs where
      "progressLog s' = progressLog ?s0 @ rs" "list_all percentage rs" "sorted_wrt js_le rs"
      by blast
    moreover have "progressLog ?s0 = progressLog s" by (simp add: send_def)
    ultimately show ?thesis by (simp add: steady_def)
  qed
qed


subsection \<open>Steps that do not force-start\<close>






subsection \<open>A receiver with no offer to answer\<close>






section \<open>Round trip\<close>

text \<open>
  Claim C1. A file of size \<open>S\<close> is uploaded in chunks of at most 32 KiB over a channel
  that stays open and is found below the high-water mark often enough to carry the file.
  Then the upload returns, completed; the packets it has sent are \<open>file-start\<close>, the chunks
  and \<open>file-end\<close>. A receiver that is given these packets has, after the last chunk and
  before \<open>file-end\<close>, accumulated exactly \<open>S\<close> bytes, and its buffer holds the chunks in
  the order of arrival; on \<open>file-end\<close>, if it holds a descriptor, it assembles the
  concatenation of the chunks, which is the file, byte for byte, of length \<open>S\<close>.
\<close>

theorem round_trip:
  assumes "connRef s = Some c"
    and "list_all obs_open (take n obs)"
    and "file_size f \<le>
           length (filter (\<lambda>ob. \<not> backlogged ob) (take n obs)) * CHUNK_SIZE"
  shows "\<exists>s' sent.
           startChunkedUpload (Some f) obs s = Some s' \<and> status s' = COMPLETED \<and>
           sent = drop (length (wire s)) (wire s') \<and>
           sentPackets sent = FileStart # map FileChunk (sentChunks sent) @ [FileEnd] \<and>
           list_all (\<lambda>x. x \<noteq> [] \<and> length x \<le> CHUNK_SIZE) (sentChunks sent) \<and>
           concat (sentChunks sent) = file_bytes f \<and>
           length (concat (sentChunks sent)) = file_size f \<and>
           receivedSizeRef (deliver r (butlast (sentPackets sent))) = file_size f \<and>
           receivedChunksRef (deliver r (butlast (sentPackets sent))) = sentChunks sent \<and>
           (incomingMetaRef r = Some m \<longrightarrow>
              receivedFileUrl (deliver r (sentPackets sent)) =
                Some \<lparr>blob_bytes = file_bytes f, blob_type = meta_type m\<rparr> \<and>
              status (deliver r (sentPackets sent)) = COMPLETED)"
proof -
  from upload_returns[OF assms] obtain s' where
    up: "startChunkedUpload (Some f) obs s = Some s'" and st: "status s' = COMPLETED"
    by blast
  define sent where "sent = drop (length (wire s)) (wire s')"
  from upload_completed[OF assms(1) up st] obtain cs where
    w: "wire s' = wire s @ Out c FileStart # map (\<lambda>x. Out c (FileChunk x)) cs @ [Out c FileEnd]"
    and cc: "concat cs = file_bytes f"
    and la: "list_all (\<lambda>x. x \<noteq> [] \<and> length x \<le> CHUNK_SIZE) cs"
    by blast
  have sent: "sent = Out c FileStart # map (\<lambda>x. Out c (FileChunk x)) cs @ [Out c FileEnd]"
    using w by (simp add: sent_def)
  have sc: "sentChunks sent = cs"
    by (simp add: sent sentChunks_append sentChunks_chunks)
  have sp: "sentPackets sent = FileStart # map FileChunk cs @ [FileEnd]"
    by (simp add: sent sentPackets_append sentPackets_chunks)
  have bl: "butlast (sentPackets sent) = FileStart # map FileChunk cs"
    by (simp add: sp butlast_append)
  let ?r0 = "receiver_on_data r FileStart"
  let ?r1 = "deliver ?r0 (map FileChunk cs)"
  have r0: "receivedChunksRef ?r0 = [] \<and> receivedSizeRef ?r0 = 0 \<and>
            incomingMetaRef ?r0 = incomingMetaRef r"
    by (simp add: setProgress_def)
  have r1: "receivedChunksRef ?r1 = cs \<and> receivedSizeRef ?r1 = length (concat cs) \<and>
            incomingMetaRef ?r1 = incomingMetaRef r"
    using deliver_chunks[of ?r0 cs] r0 by simp
  have d1: "deliver r (butlast (sentPackets sent)) = ?r1"
    by (simp add: bl deliver_Cons)
  have d2: "deliver r (sentPackets sent) = receiver_on_data ?r1 FileEnd"
    by (simp add: sp deliver_Cons deliver_append deliver_Nil)
  have e: "incomingMetaRef r = Some m \<longrightarrow>
           receivedFileUrl (receiver_on_data ?r1 FileEnd) =
             Some \<lparr>blob_bytes = concat cs, blob_type = meta_type m\<rparr> \<and>
           status (receiver_on_data ?r1 FileEnd) = COMPLETED"
    using r1 by (simp add: setProgress_def)
  have "sentPackets sent = FileStart # map FileChunk (sentChunks sent) @ [FileEnd] \<and>
           list_all (\<lambda>x. x \<noteq> [] \<and> length x \<le> CHUNK_SIZE) (sentChunks sent) \<and>
           concat (sentChunks sent) = file_bytes f \<and>
           length (concat (sentChunks sent)) = file_size f \<and>
           receivedSizeRef (deliver r (butlast (sentPackets sent))) = file_size f \<and>
           receivedChunksRef (deliver r (butlast (sentPackets sent))) = sentChunks sent \<and>
           (incomingMetaRef r = Some m \<longrightarrow>
              receivedFileUrl (deliver r (sentPackets sent)) =
                Some \<lparr>blob_bytes = file_bytes f, blob_type = meta_type m\<rparr> \<and>
              status (deliver r (sentPackets sent)) = COMPLETED)"
    using sp sc la d1 d2 r1 e cc by (simp add: file_size_def)
  with up st sent_def show ?thesis by blast
qed

text \<open>
  The theorem at work: a file of 65536 bytes is uploaded over a channel that is found
  backlogged once; the receiver has accepted the offer. Two chunks of 32768 bytes are
  sent, and the receiver assembles the 65536 bytes.
\<close>

theorem round_trip_witness:
  "connRef (offering big) = Some 1 \<and>
   list_all obs_open (take 3 [clear, busy, clear]) \<and>
   file_size big \<le>
     length (filter (\<lambda>ob. \<not> backlogged ob) (take 3 [clear, busy, clear])) * CHUNK_SIZE \<and>
   incomingMetaRef (accepted (describe big)) = Some (describe big) \<and>
   map_option status (startChunkedUpload (Some big) [clear, busy, clear] (offering big)) =
     Some COMPLETED \<and>
   sentChunks (wire (the (startChunkedUpload (Some big) [clear, busy, clear] (offering big)))) =
     [replicate 32768 0, replicate 32768 0] \<and>
   receivedSizeRef (deliver (accepted (describe big))
     [FileStart, FileChunk (replicate 32768 0), FileChunk (replicate 32768 0)]) = 65536 \<and>
   receivedFileUrl (deliver (accepted (describe big))
     [FileStart, FileChunk (replicate 32768 0), FileChunk (replicate 32768 0), FileEnd]) =
     Some \<lparr>blob_bytes = replicate 65536 0, blob_type = ''text/plain''\<rparr>"
proof -
  let ?s = "offering big"
  let ?obs = "[clear, busy, clear]"
  let ?r = "accepted (describe big)"
  have c: "connRef ?s = Some 1"
    by (simp add: handler_defs scenario_defs)
  have o: "list_all obs_open (take 3 ?obs)"
    by (simp add: scenario_defs)
  have z: "file_size big \<le>
      length (filter (\<lambda>ob. \<not> backlogged ob) (take 3 ?obs)) * CHUNK_SIZE"
    by (simp add: scenario_defs)
  have m: "incomingMetaRef ?r = Some (describe big)"
    by (simp add: handler_defs scenario_defs)
  have l: "wire ?s = [Out 1 (FileMeta (describe big))]"
    by (simp add: handler_defs scenario_defs)
  from round_trip[OF c o z, of ?r "describe big"] m obtain s' sent where
    up: "startChunkedUpload (Some big) ?obs ?s = Some s'"
    and st: "status s' = COMPLETED"
    and sent: "sent = drop (length (wire ?s)) (wire s')"
    and sp: "sentPackets sent = FileStart # map FileChunk (sentChunks sent) @ [FileEnd]"
    and cc: "concat (sentChunks sent) = file_bytes big"
    and sz: "receivedSizeRef (deliver ?r (butlast (sentPackets sent))) = file_size big"
    and url: "receivedFileUrl (deliver ?r (sentPackets sent)) =
                Some \<lparr>blob_bytes = file_bytes big, blob_type = meta_type (describe big)\<rparr>"
    by blast
  have w: "wire (the (startChunkedUpload (Some big) ?obs ?s)) =
             [Out 1 (FileMeta (describe big)), Out 1 FileStart,
              Out 1 (FileChunk (replicate 32768 0)), Out 1 (FileChunk (replicate 32768 0)),
              Out 1 FileEnd]"
    by (simp add: handler_defs scenario_defs percent_values)
  from up w have w': "wire s' =
             [Out 1 (FileMeta (describe big)), Out 1 FileStart,
              Out 1 (FileChunk (replicate 32768 0)), Out 1 (FileChunk (replicate 32768 0)),
              Out 1 FileEnd]"
    by simp
  have sent': "sent = [Out 1 FileStart,
              Out 1 (FileChunk (replicate 32768 0)), Out 1 (FileChunk (replicate 32768 0)),
              Out 1 FileEnd]"
    by (simp add: sent l w')
  from sz url have "receivedSizeRef (deliver ?r
       [FileStart, FileChunk (replicate 32768 0), FileChunk (replicate 32768 0)]) = 65536 \<and>
     receivedFileUrl (deliver ?r
       [FileStart, FileChunk (replicate 32768 0), FileChunk (replicate 32768 0), FileEnd]) =
       Some \<lparr>blob_bytes = replicate 65536 0, blob_type = ''text/plain''\<rparr>"
    unfolding sent' by (simp add: file_size_def big_def describe_def)
  moreover have "sentChunks (wire (the (startChunkedUpload (Some big) ?obs ?s))) =
      [replicate 32768 0, replicate 32768 0]"
    by (simp add: w)
  moreover have "map_option status (startChunkedUpload (Some big) ?obs ?s) = Some COMPLETED"
    by (subst up) (simp add: st)
  ultimately show ?thesis using c o z m by blast
qed

section \<open>Consent\<close>



text \<open>
  An \<open>approve\<close> starts the upload of the file that was selected when the connection it
  arrives on was made. On a first connection, made before any file was selected, it
  starts nothing; and once a second connection has been made with a file selected, an
  \<open>approve\<close> that arrives on the first one still starts nothing.
\<close>

lemma approve_reads_own_closure:
  "map_option wire (run initial (offer abc @ [SenderData 1 Approve [clear]])) =
     Some [Out 1 (FileMeta (describe abc)), In Approve] \<and>
   map_option status (run initial (offer abc @ [SenderData 1 Approve [clear]])) =
     Some WAITING_APPROVAL \<and>
   map_option wire (run initial (butlast redial @ [SenderData 1 Approve [clear]])) =
     Some [Out 2 (FileMeta (describe abc)), In Approve]"
  by (simp add: handler_defs scenario_defs)


section \<open>The end of a transfer at the receiver\<close>

text \<open>
  Claim C3, as amended. A receiver that holds a descriptor and receives \<open>file-end\<close>
  goes to \<open>COMPLETED\<close>, assembles the concatenation of the buffered chunks under the
  descriptor's media type and exposes it, and reports 100 percent. Neither the phase nor
  the accumulated size is consulted: the outcome is the same whatever the byte count, and
  the descriptor's size serves the progress reports only.
\<close>

theorem transferEnd_with_descriptor:
  assumes "incomingMetaRef s = Some m"
  shows "status (receiver_on_data s FileEnd) = COMPLETED \<and>
         receivedFileUrl (receiver_on_data s FileEnd) =
           Some \<lparr>blob_bytes = concat (receivedChunksRef s), blob_type = meta_type m\<rparr> \<and>
         progress (receiver_on_data s FileEnd) = Num 100 \<and>
         receivedFileUrl (receiver_on_data (s\<lparr>receivedSizeRef := n, status := ph\<rparr>) FileEnd) =
           receivedFileUrl (receiver_on_data s FileEnd) \<and>
         status (receiver_on_data (s\<lparr>receivedSizeRef := n, status := ph\<rparr>) FileEnd) = COMPLETED"
  using assms by (simp add: setProgress_def)

theorem transferEnd_with_descriptor_witness:
  "incomingMetaRef (the (run initial (butlast receive_short))) = Some m10 \<and>
   status (receiver_on_data (the (run initial (butlast receive_short))) FileEnd) = COMPLETED \<and>
   receivedFileUrl (receiver_on_data (the (run initial (butlast receive_short))) FileEnd) =
     Some \<lparr>blob_bytes = [1, 2, 3], blob_type = ''text/plain''\<rparr>"
proof -
  let ?s = "the (run initial (butlast receive_short))"
  have m: "incomingMetaRef ?s = Some m10"
    by (simp add: handler_defs scenario_defs percent_values)
  have b: "receivedChunksRef ?s = [[1, 2, 3]]"
    by (simp add: handler_defs scenario_defs percent_values)
  from transferEnd_with_descriptor[OF m] m b show ?thesis
    by (simp add: m10_def)
qed

text \<open>
  The claim as it was stated fails: a receiver that accepted an offer of ten bytes and
  was sent three bytes completes on \<open>file-end\<close> and exposes the three bytes.
\<close>

theorem transferEnd_ignores_size:
  "feasible initial receive_short \<and>
   map_option status (run initial (butlast receive_short)) = Some TRANSFERRING \<and>
   map_option (map_option meta_size \<circ> incomingMetaRef) (run initial (butlast receive_short)) =
     Some (Some 10) \<and>
   map_option receivedSizeRef (run initial (butlast receive_short)) = Some 3 \<and>
   map_option status (run initial receive_short) = Some COMPLETED \<and>
   map_option receivedFileUrl (run initial receive_short) =
     Some (Some \<lparr>blob_bytes = [1, 2, 3], blob_type = ''text/plain''\<rparr>)"
  by (simp add: handler_defs render_defs scenario_defs percent_values)

text \<open>
  Claim C4, as amended. When \<open>file-end\<close> arrives while no descriptor is on record, the
  handler does nothing: the state, and with it the phase, stays as it is, and no artifact
  is produced.
\<close>

theorem transferEnd_without_descriptor:
  assumes "incomingMetaRef s = None"
  shows "receiver_on_data s FileEnd = s"
  using assms by simp

theorem transferEnd_without_descriptor_witness:
  "incomingMetaRef (the (run initial (butlast receive_undescribed))) = None \<and>
   receiver_on_data (the (run initial (butlast receive_undescribed))) FileEnd =
     the (run initial (butlast receive_undescribed))"
proof -
  have m: "incomingMetaRef (the (run initial (butlast receive_undescribed))) = None"
    by (simp add: handler_defs scenario_defs percent_values)
  from transferEnd_without_descriptor[OF m] m show ?thesis by blast
qed

text \<open>
  The claim as it was stated fails: a receiver that declined the offer and is sent the
  file all the same is in \<open>TRANSFERRING\<close> with no descriptor when \<open>file-end\<close> arrives, and
  it stays in \<open>TRANSFERRING\<close>; it does not go to \<open>FAILED\<close>.
\<close>

theorem transferEnd_undescribed_stays:
  "feasible initial receive_undescribed \<and>
   map_option incomingMetaRef (run initial (butlast receive_undescribed)) = Some None \<and>
   map_option status (run initial (butlast receive_undescribed)) = Some TRANSFERRING \<and>
   map_option status (run initial receive_undescribed) = Some TRANSFERRING \<and>
   map_option receivedFileUrl (run initial receive_undescribed) = Some None"
  by (simp add: handler_defs render_defs scenario_defs percent_values)

section \<open>Progress\<close>

text \<open>
  Claim C5, as amended. Progress values are computed in double precision, as the source
  computes them. Every progress value that an upload reports is an integer
  between 0 and 100, and the reports of one upload never decrease. A receiver that holds
  a descriptor reports 0 on \<open>file-start\<close>, the rounded ratio of the accumulated bytes to
  the descriptor's size on each chunk, and 100 on \<open>file-end\<close>; these are integers between
  0 and 100 that never decrease provided that the bytes received do not exceed the
  descriptor's size (and that size is positive when a chunk arrives). The receiver does
  not clamp its value.
\<close>

theorem progress_steady:
  assumes "startChunkedUpload sel obs s = Some s'"
    and "incomingMetaRef r = Some m"
    and "length (concat cs) \<le> meta_size m"
    and "0 < meta_size m \<or> cs = []"
  shows "steady (drop (length (progressLog s)) (progressLog s')) \<and>
         steady (drop (length (progressLog r))
           (progressLog (deliver r (FileStart # map FileChunk cs @ [FileEnd]))))"
  using upload_progress[OF assms(1)] receive_progress[OF assms(2,3,4)] by simp

theorem progress_steady_witness:
  "map_option progressLog (startChunkedUpload (Some big) [clear, busy, clear] (offering big)) =
     Some [Num 50, Num 100] \<and>
   incomingMetaRef (accepted (describe big)) = Some (describe big) \<and>
   meta_size (describe big) = 65536 \<and>
   progressLog (deliver (accepted (describe big))
     [FileStart, FileChunk (replicate 32768 0), FileChunk (replicate 32768 0), FileEnd]) =
     [Num 0, Num 50, Num 100, Num 100] \<and>
   steady [Num 50, Num 100] \<and> steady [Num 0, Num 50, Num 100, Num 100]"
proof -
  let ?s = "offering big"
  let ?s' = "the (startChunkedUpload (Some big) [clear, busy, clear] ?s)"
  let ?r = "accepted (describe big)"
  let ?cs = "[replicate 32768 0, replicate 32768 (0::byte)]"
  have u: "startChunkedUpload (Some big) [clear, busy, clear] ?s = Some ?s'"
    by (simp add: handler_defs scenario_defs percent_values)
  have m: "incomingMetaRef ?r = Some (describe big)"
    by (simp add: handler_defs scenario_defs)
  have sz: "meta_size (describe big) = 65536"
    by (simp add: scenario_defs)
  have le: "length (concat ?cs) \<le> meta_size (describe big)"
    by (simp add: scenario_defs)
  have pos: "0 < meta_size (describe big) \<or> ?cs = []"
    by (simp add: scenario_defs)
  have p0: "progressLog ?s = []"
    by (simp add: handler_defs scenario_defs)
  have p1: "progressLog ?s' = [Num 50, Num 100]"
    by (simp add: handler_defs scenario_defs percent_values)
  have q0: "progressLog ?r = []"
    by (simp add: handler_defs scenario_defs)
  have q1: "progressLog (deliver ?r
       [FileStart, FileChunk (replicate 32768 0), FileChunk (replicate 32768 0), FileEnd]) =
     [Num 0, Num 50, Num 100, Num 100]"
    by (simp add: handler_defs scenario_defs deliver_def percent_values)
  from progress_steady[OF u m le pos]
  have "steady [Num 50, Num 100] \<and> steady [Num 0, Num 50, Num 100, Num 100]"
    using p0 p1 q0 q1 by simp
  moreover have "map_option progressLog
      (startChunkedUpload (Some big) [clear, busy, clear] ?s) = Some [Num 50, Num 100]"
    by (subst u) (simp add: p1)
  ultimately show ?thesis using m sz q1 by blast
qed

text \<open>
  The claim as it was stated fails for the receiver. The sender offers a file of one
  byte, replaces it by a file of two bytes while it waits (the file panel stays on
  screen) and force-starts. The receiver, which holds the descriptor of one byte, reports
  0, then 200, then 100: a value above 100, followed by a smaller one.
\<close>

theorem swapped_file_overshoots:
  "feasible initial swap \<and>
   map_option (sentPackets \<circ> wire) (run initial swap) =
     Some [FileMeta (describe one), FileStart, FileChunk [1, 2], FileEnd] \<and>
   meta_size (describe one) = 1 \<and>
   feasible initial (receiving [FileMeta (describe one), FileStart, FileChunk [1, 2], FileEnd]) \<and>
   map_option progressLog
     (run initial (receiving [FileMeta (describe one), FileStart, FileChunk [1, 2], FileEnd])) =
     Some [Num 0, Num 200, Num 100] \<and>
   \<not> steady [Num 0, Num 200, Num 100]"
  by (simp add: handler_defs render_defs scenario_defs percent_values percent_two_one
      steady_def)

section \<open>Reset\<close>

text \<open>
  Claim C6, as amended. \<open>reset\<close> asks the user to confirm. When the user confirms, in
  whatever phase and after a transfer of whatever size, the phase becomes \<open>IDLE\<close>, the
  descriptor, the received artifact and the selected file are cleared (the descriptor's
  mirror in \<open>incomingMetaRef\<close> with the next render) and the progress is 0. When the user
  declines, nothing changes.
\<close>

theorem reset_clears_cells:
  "status (reset True s) = IDLE \<and>
   incomingMeta (reset True s) = None \<and>
   receivedFileUrl (reset True s) = None \<and>
   selectedFile (reset True s) = None \<and>
   progress (reset True s) = Num 0 \<and>
   map_option incomingMetaRef (step s (Reset True)) = Some None \<and>
   reset False s = s"
  by (simp add: reset_def setProgress_def step_def commit_def)

text \<open>
  The claim as it was stated fails: \<open>reset\<close> does not touch the receive buffer. After a
  completed transfer of three bytes and a confirmed reset, the buffer still holds the
  chunk and the byte count is still 3. And a reset that the user declines leaves the
  phase at \<open>COMPLETED\<close>.
\<close>

theorem reset_keeps_buffer:
  "feasible initial (receive_short @ [Reset True]) \<and>
   map_option status (run initial receive_short) = Some COMPLETED \<and>
   map_option status (run initial (receive_short @ [Reset False])) = Some COMPLETED \<and>
   map_option status (run initial (receive_short @ [Reset True])) = Some IDLE \<and>
   map_option receivedChunksRef (run initial (receive_short @ [Reset True])) =
     Some [[1, 2, 3]] \<and>
   map_option receivedSizeRef (run initial (receive_short @ [Reset True])) = Some 3"
  by (simp add: handler_defs render_defs scenario_defs percent_values)

text \<open>The buffer is emptied by the next \<open>file-start\<close> and by the next incoming
  connection.\<close>

lemma buffer_cleared_on_start:
  "receivedChunksRef (receiver_on_data s FileStart) = [] \<and>
   receivedSizeRef (receiver_on_data s FileStart) = 0 \<and>
   receivedChunksRef (handleIncomingConnection c s) = [] \<and>
   receivedSizeRef (handleIncomingConnection c s) = 0"
  by (simp add: setProgress_def handleIncomingConnection_def startHeartbeat_def)

section \<open>The connect timeout\<close>

text \<open>
  Claim C7. The claim says that a sender whose channel does not open within ten seconds
  goes to \<open>FAILED\<close> with a cause. The timer's callback tests the \<open>open\<close> flag of the
  connection in \<open>connRef\<close>, and \<open>connRef\<close> is only set once a channel has opened. Here a
  fresh sender connects, the channel never opens and the timer fires: the sender stays in
  \<open>CONNECTING\<close> with the message \<open>Connecting...\<close>.
\<close>

theorem connect_timeout_without_connection:
  "feasible initial (dial @ [ConnectTimeout False]) \<and>
   map_option status (run initial dial) = Some CONNECTING \<and>
   map_option connRef (run initial dial) = Some None \<and>
   map_option status (run initial (dial @ [ConnectTimeout False])) = Some CONNECTING \<and>
   map_option statusMessage (run initial (dial @ [ConnectTimeout False])) =
     Some ''Connecting...''"
  by (simp add: handler_defs render_defs scenario_defs)

text \<open>With no connection on record the callback never acts; with one on record that is
  not open it reports the timeout.\<close>

lemma connectTimeout_cases:
  "(connRef s = None \<longrightarrow> connectTimeout b s = s) \<and>
   (connRef s \<noteq> None \<longrightarrow> status (connectTimeout False s) = FAILED \<and>
      statusMessage (connectTimeout False s) = ''Connection timed out. Check ID.'')"
  by (auto simp: connectTimeout_def)

section \<open>Rejection\<close>




section \<open>Heartbeat\<close>

text \<open>
  Claim C9, as amended. The monitor is started for a connection when the receiver takes
  it and when the sender's channel opens. While the monitor runs, each firing of its
  2000 ms interval sends exactly one \<open>heartbeat\<close> on that connection if the connection is
  open at that moment, and nothing if it is not. The \<open>close\<close> handlers of both roles and
  the teardown of the component stop the monitor, after which a firing does nothing.
\<close>

theorem heartbeat_monitor:
  assumes "heartbeatRef s = Some c"
  shows "heartbeatTick True s = send c Heartbeat s \<and>
         wire (heartbeatTick True s) = wire s @ [Out c Heartbeat] \<and>
         heartbeatTick False s = s \<and>
         heartbeatRef (handleIncomingConnection c' s) = Some c' \<and>
         heartbeatRef (sender_on_open c' s) = Some c' \<and>
         heartbeatRef (receiver_on_close s) = None \<and>
         heartbeatRef (sender_on_close cl s) = None \<and>
         handle s Teardown = Some (stopHeartbeat s) \<and>
         heartbeatRef (stopHeartbeat s) = None \<and>
         heartbeatTick b (stopHeartbeat s) = stopHeartbeat s"
  using assms
  by (simp add: heartbeatTick_def send_def handleIncomingConnection_def sender_on_open_def
      receiver_on_close_def sender_on_close_def startHeartbeat_def stopHeartbeat_def Let_def)

theorem heartbeat_monitor_witness:
  "heartbeatRef (the (run initial (receiving []))) = Some 1 \<and>
   wire (heartbeatTick True (the (run initial (receiving [])))) = [Out 1 Heartbeat] \<and>
   wire (heartbeatTick False (the (run initial (receiving [])))) = [] \<and>
   map_option wire (run initial (receiving [] @ [ReceiverClose, HeartbeatTick True])) = Some []"
proof -
  let ?s = "the (run initial (receiving []))"
  have h: "heartbeatRef ?s = Some 1"
    by (simp add: handler_defs scenario_defs)
  have w: "wire ?s = []"
    by (simp add: handler_defs scenario_defs)
  from heartbeat_monitor[OF h]
  have "wire (heartbeatTick True ?s) = wire ?s @ [Out 1 Heartbeat] \<and> heartbeatTick False ?s = ?s"
    by blast
  then have "wire (heartbeatTick True ?s) = [Out 1 Heartbeat] \<and>
             wire (heartbeatTick False ?s) = []"
    by (simp add: w)
  moreover have
    "map_option wire (run initial (receiving [] @ [ReceiverClose, HeartbeatTick True])) = Some []"
    by (simp add: handler_defs scenario_defs)
  ultimately show ?thesis using h by blast
qed

text \<open>
  The claim as it was stated fails: the \<open>error\<close> handlers do not stop the monitor. After
  the channel of a receiver has reported an error the interval is still installed, and
  its next firing sends a heartbeat; the same holds for the sender.
\<close>

theorem heartbeat_survives_error:
  "map_option heartbeatRef (run initial receive_error) = Some (Some 1) \<and>
   map_option status (run initial receive_error) = Some FAILED \<and>
   map_option wire (run initial (receive_error @ [HeartbeatTick True])) =
     Some [Out 1 Heartbeat] \<and>
   map_option heartbeatRef (run initial (offer abc @ [SenderError 1])) = Some (Some 1)"
  by (simp add: handler_defs render_defs scenario_defs)

section \<open>The empty file\<close>

text \<open>
  Claim C10. For a file of size 0 the upload, once started, returns whatever the channel
  does: it sends \<open>file-start\<close> and then \<open>file-end\<close> with no chunk in between, reports no
  progress (so the file size is never divided by) and ends in \<open>COMPLETED\<close>. A receiver
  that holds the descriptor and is given the two packets assembles an artifact of length
  zero and reaches \<open>COMPLETED\<close>.
\<close>

theorem empty_file_transfer:
  assumes "file_size f = 0" and "connRef s = Some c" and "incomingMetaRef r = Some m"
  shows "\<exists>s'. startChunkedUpload (Some f) obs s = Some s' \<and>
           wire s' = wire s @ [Out c FileStart, Out c FileEnd] \<and>
           progressLog s' = progressLog s \<and>
           status s' = COMPLETED \<and>
           status (deliver r (sentPackets (drop (length (wire s)) (wire s')))) = COMPLETED \<and>
           receivedFileUrl (deliver r (sentPackets (drop (length (wire s)) (wire s')))) =
             Some \<lparr>blob_bytes = [], blob_type = meta_type m\<rparr> \<and>
           receivedSizeRef (deliver r (sentPackets (drop (length (wire s)) (wire s')))) = 0"
proof -
  let ?s0 = "(send c FileStart
                (s\<lparr>status := TRANSFERRING, statusMessage := ''Starting transfer...''\<rparr>))
               \<lparr>statusMessage := ''Sending file...''\<rparr>"
  have loop: "chunkLoop c f 0 obs ?s0 = Some (finishUpload c ?s0)"
    using assms(1) by (cases obs) simp_all
  have up: "startChunkedUpload (Some f) obs s = Some (finishUpload c ?s0)"
    using assms(2) loop by (simp add: upload_unfold)
  have w: "wire (finishUpload c ?s0) = wire s @ [Out c FileStart, Out c FileEnd]"
    by (simp add: finishUpload_def send_def)
  have p: "progressLog (finishUpload c ?s0) = progressLog s"
    by (simp add: finishUpload_def send_def)
  have st: "status (finishUpload c ?s0) = COMPLETED"
    by (simp add: finishUpload_def)
  have sp: "sentPackets (drop (length (wire s)) (wire (finishUpload c ?s0))) =
              [FileStart, FileEnd]"
    by (simp add: w)
  have rc: "status (deliver r [FileStart, FileEnd]) = COMPLETED \<and>
            receivedFileUrl (deliver r [FileStart, FileEnd]) =
              Some \<lparr>blob_bytes = [], blob_type = meta_type m\<rparr> \<and>
            receivedSizeRef (deliver r [FileStart, FileEnd]) = 0"
    using assms(3) by (simp add: deliver_def setProgress_def)
  show ?thesis
    using up w p st rc by (simp add: sp)
qed

theorem empty_file_transfer_witness:
  "file_size void = 0 \<and> connRef (offering void) = Some 1 \<and>
   incomingMetaRef (accepted (describe void)) = Some (describe void) \<and>
   meta_size (describe void) = 0 \<and>
   map_option wire (startChunkedUpload (Some void) [] (offering void)) =
     Some [Out 1 (FileMeta (describe void)), Out 1 FileStart, Out 1 FileEnd] \<and>
   map_option progressLog (startChunkedUpload (Some void) [] (offering void)) = Some [] \<and>
   (\<exists>s'. startChunkedUpload (Some void) [] (offering void) = Some s' \<and>
      status s' = COMPLETED \<and>
      receivedFileUrl (deliver (accepted (describe void))
          (sentPackets (drop (length (wire (offering void))) (wire s')))) =
        Some \<lparr>blob_bytes = [], blob_type = ''text/plain''\<rparr>)"
proof -
  have z: "file_size void = 0"
    by (simp add: scenario_defs)
  have c: "connRef (offering void) = Some 1"
    by (simp add: handler_defs scenario_defs)
  have m: "incomingMetaRef (accepted (describe void)) = Some (describe void)"
    by (simp add: handler_defs scenario_defs)
  have t: "meta_type (describe void) = ''text/plain'' \<and> meta_size (describe void) = 0"
    by (simp add: scenario_defs)
  have e: "map_option wire (startChunkedUpload (Some void) [] (offering void)) =
     Some [Out 1 (FileMeta (describe void)), Out 1 FileStart, Out 1 FileEnd] \<and>
   map_option progressLog (startChunkedUpload (Some void) [] (offering void)) = Some []"
    by (simp add: handler_defs scenario_defs)
  from empty_file_transfer[OF z c m, of "[]"] obtain s' where
    "startChunkedUpload (Some void) [] (offering void) = Some s'"
    "status s' = COMPLETED"
    "receivedFileUrl (deliver (accepted (describe void))
          (sentPackets (drop (length (wire (offering void))) (wire s')))) =
        Some \<lparr>blob_bytes = [], blob_type = meta_type (describe void)\<rparr>"
    by blast
  then have "\<exists>s'. startChunkedUpload (Some void) [] (offering void) = Some s' \<and>
      status s' = COMPLETED \<and>
      receivedFileUrl (deliver (accepted (describe void))
          (sentPackets (drop (length (wire (offering void))) (wire s')))) =
        Some \<lparr>blob_bytes = [], blob_type = ''text/plain''\<rparr>"
    using t by auto
  then show ?thesis using z c m t e by blast
qed

end
